theory Spec2Isabelle
  imports Main "HOL-Library.Multiset"
begin

text \<open>
  The program serves one page: the latest videos of a fixed list of YouTube channels,
  fetched through the YouTube Data API and cached for ten minutes. This theory embeds
  \<open>fetchLatestVideos\<close>, \<open>splitChunks\<close> and the request handler of \<open>main.go\<close> and
  proves what they do. The remote service, the calendar functions of package \<open>time\<close>
  and the template are parameters; every remote call is recorded in a call log.
\<close>

section \<open>Time values\<close>

text \<open>
  A Go \<open>time.Time\<close> is modelled by the instant it denotes, an integer number of
  nanoseconds counted from Go's zero time (January 1, year 1, 00:00:00 UTC), so the zero
  \<open>Time\<close> is \<open>0\<close> and \<open>t.IsZero()\<close> is \<open>t = 0\<close>. The location of a \<open>Time\<close> does
  not take part in \<open>After\<close>, \<open>Sub\<close> or \<open>IsZero\<close> and is left out. A \<open>time.Duration\<close>
  is a signed 64-bit count of nanoseconds; \<open>Sub\<close> saturates at its bounds.
\<close>

type_synonym time = int
type_synonym duration = int

definition Minute :: duration where
  "Minute = 60 * 1000000000"

definition cacheDuration :: duration where
  "cacheDuration = 10 * Minute"

definition maxDuration :: duration where
  "maxDuration = 2 ^ 63 - 1"

definition minDuration :: duration where
  "minDuration = - (2 ^ 63)"

definition time_Sub :: "time \<Rightarrow> time \<Rightarrow> duration" where
  "time_Sub t u =
     (let d = t - u
      in if d > maxDuration then maxDuration
         else if d < minDuration then minDuration
         else d)"

text \<open>\<open>time.Since(t)\<close> is \<open>time.Now().Sub(t)\<close>; the clock reading is an argument.\<close>

definition time_Since :: "time \<Rightarrow> time \<Rightarrow> duration" where
  "time_Since now t = time_Sub now t"

definition time_Add :: "time \<Rightarrow> duration \<Rightarrow> time" where
  "time_Add t d = t + d"

definition time_After :: "time \<Rightarrow> time \<Rightarrow> bool" where
  "time_After t u = (u < t)"

text \<open>\<open>t.In(time.Local)\<close> keeps the instant and changes the location only.\<close>

definition time_In_Local :: "time \<Rightarrow> time" where
  "time_In_Local t = t"

text \<open>
  The calendar functions of package \<open>time\<close> that the program calls are parameters:
  \<open>Parse\<close> is \<open>time.Parse(time.RFC3339, s)\<close> (\<open>None\<close> when it returns an error),
  \<open>Format\<close> is \<open>t.Format(time.RFC3339)\<close> and \<open>AddDate\<close> is \<open>t.AddDate(y, m, d)\<close>.
\<close>

record pkg_time =
  Parse :: "string \<Rightarrow> time option"
  Format :: "time \<Rightarrow> string"
  AddDate :: "time \<Rightarrow> int \<Rightarrow> int \<Rightarrow> int \<Rightarrow> time"

section \<open>Data model\<close>

record Video =
  VideoID :: string
  Channel :: string
  Title :: string
  Thumbnail :: string
  URL :: string
  Published :: time
  LiveStatus :: string
  ScheduledStartTime :: time

text \<open>
  The response types of the YouTube client library, with the fields the program reads.
  A field that is a pointer in Go is an \<open>option\<close>: \<open>None\<close> is \<open>nil\<close>. The
  elements of an \<open>Items\<close> slice are taken to be non-nil.
\<close>

record yt_Thumbnail =
  Url :: string

record yt_ThumbnailDetails =
  High :: "yt_Thumbnail option"

record yt_SearchResultSnippet =
  PublishedAt :: string
  snippet_Title :: string
  Thumbnails :: "yt_ThumbnailDetails option"
  LiveBroadcastContent :: string

record yt_ResourceId =
  VideoId :: string

record yt_SearchResult =
  result_Id :: "yt_ResourceId option"
  Snippet :: "yt_SearchResultSnippet option"

record yt_VideoLiveStreamingDetails =
  details_ScheduledStartTime :: string

record yt_Video =
  video_Id :: string
  LiveStreamingDetails :: "yt_VideoLiveStreamingDetails option"

text \<open>
  The service is the pair of remote calls the refresh makes. \<open>Search_List svc c a\<close> is
  \<open>svc.Search.List([snippet]).ChannelId(c).PublishedAfter(a).Type(video).Order(date).MaxResults(50).Do()\<close>
  and \<open>Videos_List svc ids\<close> is \<open>svc.Videos.List([liveStreamingDetails]).Id(ids).Do()\<close>;
  \<open>Inl e\<close> is a returned error with message \<open>e\<close>, \<open>Inr items\<close> the items of the response.
\<close>

record Service =
  Search_List :: "string \<Rightarrow> string \<Rightarrow> string + yt_SearchResult list"
  Videos_List :: "string \<Rightarrow> string + yt_Video list"

datatype api_call =
  Search_List_call string string
  | Videos_List_call string

datatype failure =
  nil_pointer_panic
  | returned_error string

section \<open>Helpers of the source\<close>

text \<open>\<open>ids[i:end]\<close> for \<open>i \<le> end \<le> len(ids)\<close>.\<close>

definition slice :: "'a list \<Rightarrow> nat \<Rightarrow> nat \<Rightarrow> 'a list" where
  "slice ids i e = take (e - i) (drop i ids)"

text \<open>
  The loop of \<open>splitChunks\<close>. With \<open>n = 0\<close> and a non-empty \<open>ids\<close> the source never
  leaves the loop; not returning is the value \<open>None\<close>. The chunk size is a \<open>nat\<close>:
  both call sites pass the constant 50.
\<close>

partial_function (option) splitChunks_loop ::
  "string list \<Rightarrow> nat \<Rightarrow> nat \<Rightarrow> string list list \<Rightarrow> string list list option" where
  "splitChunks_loop ids n i chunks =
     (if i < length ids
      then splitChunks_loop ids n (i + n)
             (chunks @ [slice ids i (if i + n > length ids then length ids else i + n)])
      else Some chunks)"

definition splitChunks :: "string list \<Rightarrow> nat \<Rightarrow> string list list option" where
  "splitChunks ids n = splitChunks_loop ids n 0 []"

text \<open>\<open>strings.Join(elems, sep)\<close>.\<close>

fun strings_Join :: "string list \<Rightarrow> string \<Rightarrow> string" where
  "strings_Join [] sep = []"
| "strings_Join [x] sep = x"
| "strings_Join (x # y # ys) sep = x @ sep @ strings_Join (y # ys) sep"

text \<open>
  \<open>sort.Slice(xs, less)\<close>, as an insertion sort. The library routine is not stable and
  fixes no order among elements that \<open>less\<close> does not separate; nothing below depends
  on the order this model gives to such elements.
\<close>

fun insert_by :: "('a \<Rightarrow> 'a \<Rightarrow> bool) \<Rightarrow> 'a \<Rightarrow> 'a list \<Rightarrow> 'a list" where
  "insert_by lt x [] = [x]"
| "insert_by lt x (y # ys) =
     (if lt x y then x # y # ys else y # insert_by lt x ys)"

definition sort_Slice :: "'a list \<Rightarrow> ('a \<Rightarrow> 'a \<Rightarrow> bool) \<Rightarrow> 'a list" where
  "sort_Slice xs lt = foldr (insert_by lt) xs []"

text \<open>\<open>make([]Video, n)\<close> and \<open>copy(dst, src)\<close>.\<close>

definition zero_Video :: Video where
  "zero_Video =
     \<lparr>VideoID = [], Channel = [], Title = [], Thumbnail = [], URL = [],
      Published = 0, LiveStatus = [], ScheduledStartTime = 0\<rparr>"

definition make_Videos :: "nat \<Rightarrow> Video list" where
  "make_Videos n = replicate n zero_Video"

definition copy_slice :: "'a list \<Rightarrow> 'a list \<Rightarrow> 'a list" where
  "copy_slice dst src =
     (let n = min (length dst) (length src) in take n src @ drop n dst)"

section \<open>The fetch pipeline\<close>

text \<open>
  The body of the loop over \<open>searchResp.Items\<close>. \<open>item.Snippet\<close> is dereferenced first
  (for \<open>PublishedAt\<close>); the \<open>continue\<close> on a parse error skips the item before \<open>item.Id\<close>
  and the thumbnail are touched. A missing map key reads as the empty string.
\<close>

fun collect_items ::
  "pkg_time \<Rightarrow> (string \<rightharpoonup> string) \<Rightarrow> string \<Rightarrow> yt_SearchResult list \<Rightarrow> Video list
     \<Rightarrow> failure + Video list" where
  "collect_items tm channelNames channelID [] videos = Inr videos"
| "collect_items tm channelNames channelID (item # items) videos =
     (case Snippet item of
        None \<Rightarrow> Inl nil_pointer_panic
      | Some sn \<Rightarrow>
          (case Parse tm (PublishedAt sn) of
             None \<Rightarrow> collect_items tm channelNames channelID items videos
           | Some pubTime \<Rightarrow>
               (case result_Id item of
                  None \<Rightarrow> Inl nil_pointer_panic
                | Some rid \<Rightarrow>
                    (case Thumbnails sn of
                       None \<Rightarrow> Inl nil_pointer_panic
                     | Some th \<Rightarrow>
                         (case High th of
                            None \<Rightarrow> Inl nil_pointer_panic
                          | Some h \<Rightarrow>
                              collect_items tm channelNames channelID items
                                (videos @
                                 [\<lparr>VideoID = VideoId rid,
                                   Channel = (case channelNames channelID of
                                                None \<Rightarrow> [] | Some name \<Rightarrow> name),
                                   Title = snippet_Title sn,
                                   Thumbnail = Url h,
                                   URL = ''https://www.youtube.com/watch?v='' @ VideoId rid,
                                   Published = pubTime,
                                   LiveStatus = LiveBroadcastContent sn,
                                   ScheduledStartTime = 0\<rparr>]))))))"

text \<open>The loop over \<open>channelIDs\<close>; every remote call is appended to the call log.\<close>

fun collect_channels ::
  "pkg_time \<Rightarrow> Service \<Rightarrow> (string \<rightharpoonup> string) \<Rightarrow> string \<Rightarrow> string list \<Rightarrow> Video list
     \<Rightarrow> api_call list \<Rightarrow> api_call list \<times> (failure + Video list)" where
  "collect_channels tm svc channelNames weekAgo [] videos calls = (calls, Inr videos)"
| "collect_channels tm svc channelNames weekAgo (channelID # rest) videos calls =
     (case Search_List svc channelID weekAgo of
        Inl err \<Rightarrow>
          (calls @ [Search_List_call channelID weekAgo],
           Inl (returned_error (''fetchLatestVideos: Search.List error: '' @ err)))
      | Inr items \<Rightarrow>
          (case collect_items tm channelNames channelID items videos of
             Inl f \<Rightarrow> (calls @ [Search_List_call channelID weekAgo], Inl f)
           | Inr videos' \<Rightarrow>
               collect_channels tm svc channelNames weekAgo rest videos'
                 (calls @ [Search_List_call channelID weekAgo])))"

text \<open>The loop \<open>for i := range videos\<close> that stops at the first record with the given ID.\<close>

fun set_scheduled :: "string \<Rightarrow> time \<Rightarrow> Video list \<Rightarrow> Video list" where
  "set_scheduled vid t [] = []"
| "set_scheduled vid t (v # vs) =
     (if VideoID v = vid then v\<lparr>ScheduledStartTime := t\<rparr> # vs
      else v # set_scheduled vid t vs)"

text \<open>The loop over \<open>videoResp.Items\<close>; the log lines are not modelled.\<close>

fun enrich_items :: "pkg_time \<Rightarrow> yt_Video list \<Rightarrow> Video list \<Rightarrow> Video list" where
  "enrich_items tm [] videos = videos"
| "enrich_items tm (item # items) videos =
     (case LiveStreamingDetails item of
        None \<Rightarrow> enrich_items tm items videos
      | Some d \<Rightarrow>
          (if details_ScheduledStartTime d \<noteq> []
           then (case Parse tm (details_ScheduledStartTime d) of
                   None \<Rightarrow> enrich_items tm items videos
                 | Some schedUTC \<Rightarrow>
                     enrich_items tm items
                       (set_scheduled (video_Id item) (time_In_Local schedUTC) videos))
           else enrich_items tm items videos))"

text \<open>The loop over the batches; a failed call is skipped.\<close>

fun enrich_batches ::
  "pkg_time \<Rightarrow> Service \<Rightarrow> string list list \<Rightarrow> Video list \<Rightarrow> api_call list
     \<Rightarrow> api_call list \<times> Video list" where
  "enrich_batches tm svc [] videos calls = (calls, videos)"
| "enrich_batches tm svc (batch # batches) videos calls =
     (let idParam = strings_Join batch '',''
      in case Videos_List svc idParam of
           Inl err \<Rightarrow> enrich_batches tm svc batches videos (calls @ [Videos_List_call idParam])
         | Inr items \<Rightarrow>
             enrich_batches tm svc batches (enrich_items tm items videos)
               (calls @ [Videos_List_call idParam]))"

definition upcomingIDs_of :: "Video list \<Rightarrow> string list" where
  "upcomingIDs_of videos = map VideoID (filter (\<lambda>v. LiveStatus v = ''upcoming'') videos)"

definition published_less :: "Video \<Rightarrow> Video \<Rightarrow> bool" where
  "published_less a b = time_After (Published a) (Published b)"

text \<open>
  \<open>fetchLatestVideos\<close>; \<open>now\<close> is the reading of \<open>time.Now()\<close> in its first statement.
  The result is \<open>None\<close> when the call does not return, otherwise the remote calls made
  and either the failure or the returned list.
\<close>

definition fetchLatestVideos ::
  "pkg_time \<Rightarrow> Service \<Rightarrow> (string \<rightharpoonup> string) \<Rightarrow> string list \<Rightarrow> time
     \<Rightarrow> (api_call list \<times> (failure + Video list)) option" where
  "fetchLatestVideos tm svc channelNames channelIDs now =
     (let weekAgo = Format tm (AddDate tm now 0 0 (- 7))
      in case collect_channels tm svc channelNames weekAgo channelIDs [] [] of
           (calls, Inl f) \<Rightarrow> Some (calls, Inl f)
         | (calls, Inr videos) \<Rightarrow>
             (let upcomingIDs = upcomingIDs_of videos
              in if length upcomingIDs > 0
                 then (case splitChunks upcomingIDs 50 of
                         None \<Rightarrow> None
                       | Some batches \<Rightarrow>
                           (case enrich_batches tm svc batches videos calls of
                              (calls', videos') \<Rightarrow>
                                Some (calls', Inr (sort_Slice videos' published_less))))
                 else Some (calls, Inr (sort_Slice videos published_less))))"

section \<open>The cache and the request handler\<close>

record cache =
  cachedVideos :: "Video list"
  lastFetch :: time

text \<open>
  The package-level state when the handler is registered: \<open>cachedVideos\<close> is still \<open>nil\<close>
  and \<open>lastFetch = time.Now().Add(-2 * cacheDuration)\<close>, with \<open>now\<close> the reading taken there.
\<close>

definition initial_cache :: "time \<Rightarrow> cache" where
  "initial_cache now = \<lparr>cachedVideos = [], lastFetch = time_Add now (- 2 * cacheDuration)\<rparr>"

definition needRefresh :: "cache \<Rightarrow> time \<Rightarrow> bool" where
  "needRefresh c now = (time_Since now (lastFetch c) > cacheDuration)"

text \<open>
  What a request gets: the page rendered from \<open>toRender\<close>, \<open>http.Error\<close> with a status
  and a message (after a failed refresh, or after \<open>tmpl.Execute\<close> failed on \<open>toRender\<close>),
  or nothing when the handler panicked and the server dropped the connection.
\<close>

datatype response =
  Page "Video list"
  | RefreshError nat string
  | RenderError "Video list" nat string
  | Aborted

definition StatusInternalServerError :: nat where
  "StatusInternalServerError = 500"

text \<open>
  The last part of the handler: copy the snapshot and execute the template, which is a
  parameter (\<open>None\<close> when \<open>tmpl.Execute\<close> returns \<open>nil\<close>, else the error's message).
\<close>

definition render ::
  "(Video list \<Rightarrow> string option) \<Rightarrow> cache \<Rightarrow> api_call list
     \<Rightarrow> cache \<times> api_call list \<times> response" where
  "render tmpl_Execute c calls =
     (let toRender = copy_slice (make_Videos (length (cachedVideos c))) (cachedVideos c)
      in case tmpl_Execute toRender of
           None \<Rightarrow> (c, calls, Page toRender)
         | Some err \<Rightarrow> (c, calls, RenderError toRender StatusInternalServerError err))"

text \<open>The branch \<open>if needRefresh { ... }\<close> followed by the rendering.\<close>

definition refresh ::
  "pkg_time \<Rightarrow> Service \<Rightarrow> (string \<rightharpoonup> string) \<Rightarrow> string list \<Rightarrow> (Video list \<Rightarrow> string option)
     \<Rightarrow> time \<Rightarrow> time \<Rightarrow> cache \<Rightarrow> (cache \<times> api_call list \<times> response) option" where
  "refresh tm svc channelNames channelIDs tmpl_Execute now_fetch now_store c =
     (case fetchLatestVideos tm svc channelNames channelIDs now_fetch of
        None \<Rightarrow> None
      | Some (calls, Inl nil_pointer_panic) \<Rightarrow> Some (c, calls, Aborted)
      | Some (calls, Inl (returned_error err)) \<Rightarrow>
          Some (c, calls, RefreshError StatusInternalServerError (''YouTube API error: '' @ err))
      | Some (calls, Inr videos) \<Rightarrow>
          Some (render tmpl_Execute (c\<lparr>cachedVideos := videos, lastFetch := now_store\<rparr>) calls))"

text \<open>
  One request, run on its own from the state \<open>c\<close>. The three clock readings are those of
  \<open>time.Since(lastFetch)\<close>, of \<open>time.Now()\<close> inside \<open>fetchLatestVideos\<close> and of
  \<open>lastFetch = time.Now()\<close>, in the order the handler takes them. The result is the state
  afterwards, the remote calls made and the response.
\<close>

definition handler ::
  "pkg_time \<Rightarrow> Service \<Rightarrow> (string \<rightharpoonup> string) \<Rightarrow> string list \<Rightarrow> (Video list \<Rightarrow> string option)
     \<Rightarrow> time \<Rightarrow> time \<Rightarrow> time \<Rightarrow> cache \<Rightarrow> (cache \<times> api_call list \<times> response) option" where
  "handler tm svc channelNames channelIDs tmpl_Execute now_check now_fetch now_store c =
     (if needRefresh c now_check
      then refresh tm svc channelNames channelIDs tmpl_Execute now_fetch now_store c
      else Some (render tmpl_Execute c []))"

section \<open>Notions used in the statements\<close>

text \<open>The chunks that \<open>splitChunks\<close> returns for a positive chunk size, in closed form.\<close>

function chunks_of :: "nat \<Rightarrow> 'a list \<Rightarrow> 'a list list" where
  "chunks_of n xs = (if xs = [] \<or> n = 0 then [] else take n xs # chunks_of n (drop n xs))"
  by pat_completeness auto
termination
  by (relation "measure (\<lambda>(n, xs). length xs)") auto

declare chunks_of.simps [simp del]

text \<open>The bound that \<open>fetchLatestVideos\<close> passes to \<open>PublishedAfter\<close>.\<close>

definition weekAgo_of :: "pkg_time \<Rightarrow> time \<Rightarrow> string" where
  "weekAgo_of tm now = Format tm (AddDate tm now 0 0 (- 7))"

text \<open>
  The scheduled start that one detail record yields: a value exactly when
  \<open>LiveStreamingDetails\<close> is not \<open>nil\<close> and its \<open>ScheduledStartTime\<close> is non-empty and parses.
\<close>

definition detail_time :: "pkg_time \<Rightarrow> yt_Video \<Rightarrow> time option" where
  "detail_time tm item =
     (case LiveStreamingDetails item of
        None \<Rightarrow> None
      | Some d \<Rightarrow>
          (if details_ScheduledStartTime d \<noteq> []
           then map_option time_In_Local (Parse tm (details_ScheduledStartTime d))
           else None))"

text \<open>
  The value that a sequence of detail records leaves for the video ID \<open>vid\<close>, starting
  from \<open>t\<close>: the last usable scheduled start among the records carrying that ID.
\<close>

fun scheduled_by :: "pkg_time \<Rightarrow> yt_Video list \<Rightarrow> string \<Rightarrow> time \<Rightarrow> time" where
  "scheduled_by tm [] vid t = t"
| "scheduled_by tm (item # items) vid t =
     scheduled_by tm items vid
       (if video_Id item = vid
        then (case detail_time tm item of None \<Rightarrow> t | Some t' \<Rightarrow> t')
        else t)"

text \<open>The detail records received by the calls of a call log, in order; a failed call gives none.\<close>

fun call_details :: "Service \<Rightarrow> api_call \<Rightarrow> yt_Video list" where
  "call_details svc (Search_List_call c a) = []"
| "call_details svc (Videos_List_call ids) =
     (case Videos_List svc ids of Inl err \<Rightarrow> [] | Inr items \<Rightarrow> items)"

definition logged_details :: "Service \<Rightarrow> api_call list \<Rightarrow> yt_Video list" where
  "logged_details svc calls = concat (map (call_details svc) calls)"

text \<open>A search item whose \<open>PublishedAt\<close> does not parse, and a service without such items.\<close>

definition unparsable :: "pkg_time \<Rightarrow> yt_SearchResult \<Rightarrow> bool" where
  "unparsable tm item =
     (case Snippet item of None \<Rightarrow> False | Some sn \<Rightarrow> Parse tm (PublishedAt sn) = None)"

definition drop_unparsable :: "pkg_time \<Rightarrow> Service \<Rightarrow> Service" where
  "drop_unparsable tm svc =
     svc\<lparr>Search_List := (\<lambda>c a.
       case Search_List svc c a of
         Inl err \<Rightarrow> Inl err
       | Inr items \<Rightarrow> Inr (filter (\<lambda>item. \<not> unparsable tm item) items))\<rparr>"

definition item_VideoId :: "yt_SearchResult \<Rightarrow> string" where
  "item_VideoId item = (case result_Id item of None \<Rightarrow> [] | Some rid \<Rightarrow> VideoId rid)"

definition channel_item_ids :: "pkg_time \<Rightarrow> Service \<Rightarrow> string \<Rightarrow> string \<Rightarrow> string list" where
  "channel_item_ids tm svc w c =
     (case Search_List svc c w of
        Inl err \<Rightarrow> []
      | Inr items \<Rightarrow> map item_VideoId (filter (\<lambda>item. \<not> unparsable tm item) items))"

text \<open>
  What the loop body of \<open>collect_items\<close> does with one item (fail, skip it, or append
  one record), what one channel contributes, and the records of a channel that succeeds.
\<close>

definition item_outcome ::
  "pkg_time \<Rightarrow> (string \<rightharpoonup> string) \<Rightarrow> string \<Rightarrow> yt_SearchResult \<Rightarrow> failure + Video option" where
  "item_outcome tm channelNames channelID item =
     (case collect_items tm channelNames channelID [item] [] of
        Inl f \<Rightarrow> Inl f
      | Inr vs \<Rightarrow> Inr (case vs of [] \<Rightarrow> None | v # _ \<Rightarrow> Some v))"

definition channel_videos ::
  "pkg_time \<Rightarrow> Service \<Rightarrow> (string \<rightharpoonup> string) \<Rightarrow> string \<Rightarrow> string \<Rightarrow> failure + Video list" where
  "channel_videos tm svc channelNames w c =
     (case Search_List svc c w of
        Inl err \<Rightarrow> Inl (returned_error (''fetchLatestVideos: Search.List error: '' @ err))
      | Inr items \<Rightarrow> collect_items tm channelNames c items [])"

definition channel_list ::
  "pkg_time \<Rightarrow> Service \<Rightarrow> (string \<rightharpoonup> string) \<Rightarrow> string \<Rightarrow> string \<Rightarrow> Video list" where
  "channel_list tm svc channelNames w c =
     (case channel_videos tm svc channelNames w c of Inl f \<Rightarrow> [] | Inr vs \<Rightarrow> vs)"

text \<open>
  A detail service that answers a lookup only with records for IDs named in the request
  (\<open>Videos.List\<close> filters by the IDs it is given), over the batches of one fetch.
\<close>

definition answers_requested :: "Service \<Rightarrow> string list list \<Rightarrow> bool" where
  "answers_requested svc batches =
     (\<forall>batch\<in>set batches.
        case Videos_List svc (strings_Join batch '','') of
          Inl err \<Rightarrow> True
        | Inr items \<Rightarrow> (\<forall>item\<in>set items. video_Id item \<in> set batch))"






section \<open>A concrete run\<close>

text \<open>
  A small world to run the definitions on: two channels, four search items (one of them
  with a published timestamp that does not parse), and a detail lookup that knows the two
  upcoming videos. Instants are nanoseconds since year 1, so \<open>2024-05-01T10:00:00Z\<close> is
  \<open>63850154400\<close> seconds.
\<close>

definition demo_time :: pkg_time where
  "demo_time =
     \<lparr>Parse = map_of
        [(''2024-05-01T10:00:00Z'', 63850154400000000000),
         (''2024-05-02T10:00:00Z'', 63850240800000000000),
         (''2024-05-03T10:00:00Z'', 63850327200000000000),
         (''2024-05-06T18:00:00Z'', 63850615200000000000)],
      Format = (\<lambda>t. if t = 63849808800000000000 then ''2024-04-27T10:00:00Z'' else []),
      AddDate = (\<lambda>t y m d. t + d * 86400000000000)\<rparr>"

definition demo_now :: time where
  "demo_now = 63850413600000000000"

definition demo_item :: "string \<Rightarrow> string \<Rightarrow> string \<Rightarrow> yt_SearchResult" where
  "demo_item vid published status =
     \<lparr>result_Id = Some \<lparr>VideoId = vid\<rparr>,
      Snippet = Some \<lparr>PublishedAt = published, snippet_Title = ''T'',
                      Thumbnails = Some \<lparr>High = Some \<lparr>Url = ''u''\<rparr>\<rparr>,
                      LiveBroadcastContent = status\<rparr>\<rparr>"

definition demo_detail :: "string \<Rightarrow> string \<Rightarrow> yt_Video" where
  "demo_detail vid sched =
     \<lparr>video_Id = vid, LiveStreamingDetails = Some \<lparr>details_ScheduledStartTime = sched\<rparr>\<rparr>"

definition demo_search :: "string \<Rightarrow> string \<Rightarrow> string + yt_SearchResult list" where
  "demo_search c a =
     (if a \<noteq> ''2024-04-27T10:00:00Z'' then Inl ''bad request''
      else if c = ''UCa'' then
        Inr [demo_item ''a1'' ''2024-05-01T10:00:00Z'' ''upcoming'',
             demo_item ''a2'' ''yesterday'' ''none'']
      else if c = ''UCb'' then
        Inr [demo_item ''b1'' ''2024-05-03T10:00:00Z'' ''upcoming'',
             demo_item ''b2'' ''2024-05-02T10:00:00Z'' ''live'']
      else Inl ''channel not found'')"

definition demo_svc :: Service where
  "demo_svc =
     \<lparr>Search_List = demo_search,
      Videos_List = (\<lambda>ids.
        if ids = ''a1,b1'' then
          Inr [demo_detail ''a1'' [], demo_detail ''b1'' ''2024-05-06T18:00:00Z'']
        else if ids = ''b1,a1'' then
          Inr [demo_detail ''b1'' ''2024-05-06T18:00:00Z'', demo_detail ''a1'' []]
        else Inl ''quota exceeded'')\<rparr>"

definition demo_svc_down :: Service where
  "demo_svc_down =
     \<lparr>Search_List = demo_search, Videos_List = (\<lambda>ids. Inl ''quota exceeded'')\<rparr>"

definition demo_names :: "string \<rightharpoonup> string" where
  "demo_names = [''UCa'' \<mapsto> ''Alpha'', ''UCb'' \<mapsto> ''Beta'']"

definition demo_video :: "string \<Rightarrow> string \<Rightarrow> time \<Rightarrow> string \<Rightarrow> time \<Rightarrow> Video" where
  "demo_video vid ch pub status sched =
     \<lparr>VideoID = vid, Channel = ch, Title = ''T'', Thumbnail = ''u'',
      URL = ''https://www.youtube.com/watch?v='' @ vid, Published = pub,
      LiveStatus = status, ScheduledStartTime = sched\<rparr>"

definition demo_collected :: "Video list" where
  "demo_collected =
     [demo_video ''a1'' ''Alpha'' 63850154400000000000 ''upcoming'' 0,
      demo_video ''b1'' ''Beta'' 63850327200000000000 ''upcoming'' 0,
      demo_video ''b2'' ''Beta'' 63850240800000000000 ''live'' 0]"

definition demo_result :: "Video list" where
  "demo_result =
     [demo_video ''b1'' ''Beta'' 63850327200000000000 ''upcoming'' 63850615200000000000,
      demo_video ''b2'' ''Beta'' 63850240800000000000 ''live'' 0,
      demo_video ''a1'' ''Alpha'' 63850154400000000000 ''upcoming'' 0]"

definition demo_result_down :: "Video list" where
  "demo_result_down =
     [demo_video ''b1'' ''Beta'' 63850327200000000000 ''upcoming'' 0,
      demo_video ''b2'' ''Beta'' 63850240800000000000 ''live'' 0,
      demo_video ''a1'' ''Alpha'' 63850154400000000000 ''upcoming'' 0]"

definition demo_search_calls :: "api_call list" where
  "demo_search_calls =
     [Search_List_call ''UCa'' ''2024-04-27T10:00:00Z'',
      Search_List_call ''UCb'' ''2024-04-27T10:00:00Z'']"

definition demo_calls :: "api_call list" where
  "demo_calls = demo_search_calls @ [Videos_List_call ''a1,b1'']"

definition demo_calls_swapped :: "api_call list" where
  "demo_calls_swapped =
     [Search_List_call ''UCb'' ''2024-04-27T10:00:00Z'',
      Search_List_call ''UCa'' ''2024-04-27T10:00:00Z'',
      Videos_List_call ''b1,a1'']"

definition demo_error_calls :: "api_call list" where
  "demo_error_calls =
     [Search_List_call ''UCa'' ''2024-04-27T10:00:00Z'',
      Search_List_call ''UCx'' ''2024-04-27T10:00:00Z'']"

definition demo_tmpl :: "Video list \<Rightarrow> string option" where
  "demo_tmpl videos = None"

definition demo_stale_cache :: cache where
  "demo_stale_cache =
     \<lparr>cachedVideos = [demo_video ''a0'' ''Alpha'' 63850000000000000000 ''none'' 0],
      lastFetch = demo_now - 11 * Minute\<rparr>"

definition demo_fresh_cache :: cache where
  "demo_fresh_cache = \<lparr>cachedVideos = demo_result, lastFetch = demo_now - 10 * Minute\<rparr>"



text \<open>
  Fifty-one upcoming videos, fifty of one channel and one of another, so that the detail
  lookup runs in two batches: the batch of the first fifty fails, the second is answered.
\<close>

definition many_ids :: "string list" where
  "many_ids = map (\<lambda>i. replicate (Suc i) CHR ''v'') [0..<50]"

definition many_svc :: Service where
  "many_svc =
     \<lparr>Search_List = (\<lambda>c a.
        if c = ''UCa''
        then Inr (map (\<lambda>vid. demo_item vid ''2024-05-01T10:00:00Z'' ''upcoming'') many_ids)
        else Inr [demo_item ''w'' ''2024-05-02T10:00:00Z'' ''upcoming'']),
      Videos_List = (\<lambda>ids.
        if ids = ''w'' then Inr [demo_detail ''w'' ''2024-05-06T18:00:00Z'']
        else Inl ''quota exceeded'')\<rparr>"

definition many_v :: Video where
  "many_v = demo_video ''v'' ''Alpha'' 63850154400000000000 ''upcoming'' 0"

definition many_w :: Video where
  "many_w = demo_video ''w'' ''Beta'' 63850240800000000000 ''upcoming'' 0"

definition many_collected :: "Video list" where
  "many_collected =
     map (\<lambda>vid. demo_video vid ''Alpha'' 63850154400000000000 ''upcoming'' 0) many_ids @ [many_w]"

definition many_enriched :: "Video list" where
  "many_enriched =
     map (\<lambda>vid. demo_video vid ''Alpha'' 63850154400000000000 ''upcoming'' 0) many_ids @
     [many_w\<lparr>ScheduledStartTime := 63850615200000000000\<rparr>]"

definition many_calls :: "api_call list" where
  "many_calls =
     demo_search_calls @
     [Videos_List_call (strings_Join many_ids '',''), Videos_List_call ''w'']"

section \<open>Runs on which a claim fails\<close>







text \<open>
  A detail lookup that knows the IDs in one order only, and two channels that both list
  a video with the ID \<open>v\<close>.
\<close>

definition cx8_svc :: Service where
  "cx8_svc =
     \<lparr>Search_List = demo_search,
      Videos_List = (\<lambda>ids.
        if ids = ''a1,b1'' then Inr [demo_detail ''b1'' ''2024-05-06T18:00:00Z'']
        else Inl ''quota exceeded'')\<rparr>"

definition cx8_twin_svc :: Service where
  "cx8_twin_svc =
     \<lparr>Search_List = (\<lambda>c a.
        if c = ''UCa'' then Inr [demo_item ''v'' ''2024-05-01T10:00:00Z'' ''upcoming'']
        else Inr [demo_item ''v'' ''2024-05-03T10:00:00Z'' ''upcoming'']),
      Videos_List = (\<lambda>ids.
        if ids = ''v,v'' then Inr [demo_detail ''v'' ''2024-05-06T18:00:00Z'']
        else Inl ''quota exceeded'')\<rparr>"

definition cx8_twin_result :: "Video list" where
  "cx8_twin_result =
     [demo_video ''v'' ''Beta'' 63850327200000000000 ''upcoming'' 0,
      demo_video ''v'' ''Alpha'' 63850154400000000000 ''upcoming'' 63850615200000000000]"

definition cx8_twin_result_swapped :: "Video list" where
  "cx8_twin_result_swapped =
     [demo_video ''v'' ''Beta'' 63850327200000000000 ''upcoming'' 63850615200000000000,
      demo_video ''v'' ''Alpha'' 63850154400000000000 ''upcoming'' 0]"

definition cx8_twin_calls_swapped :: "api_call list" where
  "cx8_twin_calls_swapped =
     [Search_List_call ''UCb'' ''2024-04-27T10:00:00Z'',
      Search_List_call ''UCa'' ''2024-04-27T10:00:00Z'',
      Videos_List_call ''v,v'']"

section \<open>Sorting and chunking\<close>

lemma insert_by_mset: "mset (insert_by lt x xs) = add_mset x (mset xs)"
  by (induction xs) auto

lemma sort_Slice_mset: "mset (sort_Slice xs lt) = mset xs"
  unfolding sort_Slice_def by (induction xs) (auto simp: insert_by_mset)

lemma sort_Slice_set: "set (sort_Slice xs lt) = set xs"
  by (metis sort_Slice_mset set_mset_mset)

lemma insert_by_set: "set (insert_by lt x xs) = insert x (set xs)"
  by (induction xs) auto

lemma insert_by_published_sorted:
  "sorted_wrt (\<lambda>a b. Published b \<le> Published a) xs \<Longrightarrow>
   sorted_wrt (\<lambda>a b. Published b \<le> Published a) (insert_by published_less x xs)"
  by (induction xs) (auto simp: insert_by_set published_less_def time_After_def)

lemma sort_Slice_published_sorted:
  "sorted_wrt (\<lambda>a b. Published b \<le> Published a) (sort_Slice xs published_less)"
  unfolding sort_Slice_def by (induction xs) (auto simp: insert_by_published_sorted)

lemma splitChunks_loop_pos:
  "0 < n \<Longrightarrow> splitChunks_loop ids n i chunks = Some (chunks @ chunks_of n (drop i ids))"
proof (induction "length ids - i" arbitrary: i chunks rule: less_induct)
  case less
  show ?case
  proof (cases "i < length ids")
    case True
    have a: "length ids - (i + n) < length ids - i" using True less.prems by arith
    have s: "slice ids i (if i + n > length ids then length ids else i + n) = take n (drop i ids)"
      using True by (auto simp: slice_def)
    have d: "drop i ids \<noteq> []" using True by simp
    show ?thesis
      apply (subst splitChunks_loop.simps)
      apply (simp only: True if_True s less.hyps[OF a less.prems])
      apply (subst (2) chunks_of.simps)
      using d less.prems by (simp add: add.commute)
  next
    case False
    then show ?thesis
      by (subst splitChunks_loop.simps, subst chunks_of.simps) simp
  qed
qed

lemma splitChunks_pos: "0 < n \<Longrightarrow> splitChunks ids n = Some (chunks_of n ids)"
  by (simp add: splitChunks_def splitChunks_loop_pos)

lemma chunks_of_Nil: "chunks_of n [] = []"
  by (subst chunks_of.simps) simp

lemma chunks_of_short: "xs \<noteq> [] \<Longrightarrow> length xs \<le> n \<Longrightarrow> chunks_of n xs = [xs]"
  by (subst chunks_of.simps, subst chunks_of.simps) (cases n; auto)

lemma copy_make: "copy_slice (make_Videos (length xs)) xs = xs"
  by (simp add: copy_slice_def make_Videos_def)

lemma render_eq:
  "render tmpl_Execute c calls =
     (c, calls, case tmpl_Execute (cachedVideos c) of
                  None \<Rightarrow> Page (cachedVideos c)
                | Some err \<Rightarrow> RenderError (cachedVideos c) StatusInternalServerError err)"
  by (simp add: render_def copy_make split: option.splits)

section \<open>The two phases of the fetch\<close>

lemma enrich_items_Cons:
  "enrich_items tm (item # items) videos =
     (case detail_time tm item of
        None \<Rightarrow> enrich_items tm items videos
      | Some t \<Rightarrow> enrich_items tm items (set_scheduled (video_Id item) t videos))"
  by (simp add: detail_time_def split: option.splits)

lemma enrich_items_append:
  "enrich_items tm (xs @ ys) videos = enrich_items tm ys (enrich_items tm xs videos)"
  by (induction xs arbitrary: videos)
     (simp_all add: enrich_items_Cons del: enrich_items.simps(2) split: option.splits)

lemma enrich_batches_eq:
  "enrich_batches tm svc batches videos calls =
     (calls @ map (\<lambda>b. Videos_List_call (strings_Join b '','')) batches,
      enrich_items tm
        (logged_details svc (map (\<lambda>b. Videos_List_call (strings_Join b '','')) batches)) videos)"
proof (induction batches arbitrary: videos calls)
  case Nil
  then show ?case by (simp add: logged_details_def)
next
  case (Cons b bs)
  show ?case
    by (cases "Videos_List svc (strings_Join b '','')")
       (simp_all add: Cons Let_def logged_details_def enrich_items_append)
qed

text \<open>
  \<open>fetchLatestVideos\<close> always returns: the chunk size is 50. Its result is the sorted
  enrichment of what the channel loop collected.
\<close>

lemma fetch_eq:
  "fetchLatestVideos tm svc channelNames channelIDs now =
     (case collect_channels tm svc channelNames (weekAgo_of tm now) channelIDs [] [] of
        (calls, Inl f) \<Rightarrow> Some (calls, Inl f)
      | (calls, Inr videos) \<Rightarrow>
          Some (calls @ map (\<lambda>b. Videos_List_call (strings_Join b '',''))
                          (chunks_of 50 (upcomingIDs_of videos)),
                Inr (sort_Slice
                      (enrich_items tm
                         (logged_details svc
                            (map (\<lambda>b. Videos_List_call (strings_Join b '',''))
                               (chunks_of 50 (upcomingIDs_of videos))))
                         videos)
                      published_less)))"
  by (auto simp: fetchLatestVideos_def weekAgo_of_def Let_def splitChunks_pos enrich_batches_eq
      chunks_of_Nil logged_details_def split: prod.splits sum.splits)

lemma collect_channels_log:
  "collect_channels tm svc names w cs videos calls = (calls', r) \<Longrightarrow>
   \<exists>k\<le>length cs. calls' = calls @ map (\<lambda>c. Search_List_call c w) (take k cs) \<and>
                    (\<forall>vs. r = Inr vs \<longrightarrow> k = length cs)"
proof (induction cs arbitrary: videos calls)
  case Nil
  then show ?case by auto
next
  case (Cons c cs)
  show ?case
  proof (cases "Search_List svc c w")
    case (Inl e)
    with Cons.prems show ?thesis by (intro exI[of _ 1]) auto
  next
    case (Inr items)
    show ?thesis
    proof (cases "collect_items tm names c items videos")
      case (Inl f)
      with Inr Cons.prems show ?thesis by (intro exI[of _ 1]) auto
    next
      case inr: (Inr videos')
      with Inr Cons.prems have
        "collect_channels tm svc names w cs videos' (calls @ [Search_List_call c w]) = (calls', r)"
        by simp
      from Cons.IH[OF this] obtain k where
        "k \<le> length cs"
        "calls' = (calls @ [Search_List_call c w]) @ map (\<lambda>c. Search_List_call c w) (take k cs)"
        "\<forall>vs. r = Inr vs \<longrightarrow> k = length cs" by blast
      then show ?thesis by (intro exI[of _ "Suc k"]) auto
    qed
  qed
qed

lemma collect_items_filter:
  "collect_items tm names c (filter (\<lambda>item. \<not> unparsable tm item) items) videos
     = collect_items tm names c items videos"
  by (induction items arbitrary: videos)
     (auto simp: unparsable_def split: option.splits)

lemma collect_channels_drop_unparsable:
  "collect_channels tm (drop_unparsable tm svc) names w cs videos calls
     = collect_channels tm svc names w cs videos calls"
  by (induction cs arbitrary: videos calls)
     (auto simp: drop_unparsable_def collect_items_filter split: sum.splits)

lemma logged_details_drop_unparsable:
  "logged_details (drop_unparsable tm svc) calls = logged_details svc calls"
proof -
  have "call_details (drop_unparsable tm svc) c = call_details svc c" for c
    by (cases c) (simp_all add: drop_unparsable_def)
  then have "call_details (drop_unparsable tm svc) = call_details svc" by (rule ext)
  then show ?thesis by (simp add: logged_details_def)
qed

lemma collect_items_ids:
  "collect_items tm names c items videos = Inr vs \<Longrightarrow>
   map VideoID vs
     = map VideoID videos @ map item_VideoId (filter (\<lambda>item. \<not> unparsable tm item) items)"
  by (induction items arbitrary: videos)
     (auto simp: unparsable_def item_VideoId_def split: option.splits)

lemma collect_channels_ids:
  "collect_channels tm svc names w cs videos calls = (calls', Inr vs) \<Longrightarrow>
   map VideoID vs = map VideoID videos @ concat (map (channel_item_ids tm svc w) cs)"
proof (induction cs arbitrary: videos calls)
  case Nil
  then show ?case by simp
next
  case (Cons c cs)
  from Cons.prems obtain items videos' where
    s: "Search_List svc c w = Inr items" and
    i: "collect_items tm names c items videos = Inr videos'" and
    r: "collect_channels tm svc names w cs videos' (calls @ [Search_List_call c w])
          = (calls', Inr vs)"
    by (auto split: sum.splits)
  from Cons.IH[OF r] collect_items_ids[OF i] s show ?case
    by (simp add: channel_item_ids_def)
qed

text \<open>The enrichment writes \<open>ScheduledStartTime\<close> and nothing else.\<close>

lemma set_scheduled_strip:
  "map (\<lambda>v. v\<lparr>ScheduledStartTime := 0\<rparr>) (set_scheduled x t vs)
     = map (\<lambda>v. v\<lparr>ScheduledStartTime := 0\<rparr>) vs"
  by (induction vs) auto

lemma enrich_items_strip:
  "map (\<lambda>v. v\<lparr>ScheduledStartTime := 0\<rparr>) (enrich_items tm items vs)
     = map (\<lambda>v. v\<lparr>ScheduledStartTime := 0\<rparr>) vs"
  by (induction items arbitrary: vs)
     (simp_all add: enrich_items_Cons set_scheduled_strip del: enrich_items.simps(2)
        split: option.splits)

lemma strip_field:
  assumes "map (\<lambda>v. v\<lparr>ScheduledStartTime := 0\<rparr>) xs
             = map (\<lambda>v. v\<lparr>ScheduledStartTime := 0\<rparr>) ys"
  shows "map VideoID xs = map VideoID ys"
    and "map LiveStatus xs = map LiveStatus ys"
    and "map Published xs = map Published ys"
proof -
  have "map (VideoID \<circ> (\<lambda>v. v\<lparr>ScheduledStartTime := 0\<rparr>)) xs
          = map (VideoID \<circ> (\<lambda>v. v\<lparr>ScheduledStartTime := 0\<rparr>)) ys"
    using assms by (metis map_map)
  then show "map VideoID xs = map VideoID ys" by (simp add: comp_def)
  have "map (LiveStatus \<circ> (\<lambda>v. v\<lparr>ScheduledStartTime := 0\<rparr>)) xs
          = map (LiveStatus \<circ> (\<lambda>v. v\<lparr>ScheduledStartTime := 0\<rparr>)) ys"
    using assms by (metis map_map)
  then show "map LiveStatus xs = map LiveStatus ys" by (simp add: comp_def)
  have "map (Published \<circ> (\<lambda>v. v\<lparr>ScheduledStartTime := 0\<rparr>)) xs
          = map (Published \<circ> (\<lambda>v. v\<lparr>ScheduledStartTime := 0\<rparr>)) ys"
    using assms by (metis map_map)
  then show "map Published xs = map Published ys" by (simp add: comp_def)
qed

lemmas enrich_items_fields = strip_field [OF enrich_items_strip]

section \<open>The concrete run, evaluated\<close>

lemmas demo_defs =
  demo_time_def demo_svc_def demo_search_def demo_names_def demo_now_def
  demo_item_def demo_detail_def demo_video_def demo_result_def
  demo_search_calls_def demo_calls_def

lemmas run_defs =
  fetchLatestVideos_def upcomingIDs_of_def splitChunks_pos chunks_of_short sort_Slice_def
  published_less_def time_After_def time_In_Local_def Let_def

lemmas clock_defs =
  needRefresh_def time_Since_def time_Sub_def time_Add_def maxDuration_def minDuration_def
  cacheDuration_def Minute_def

lemma demo_collect_down:
  "collect_channels demo_time demo_svc_down demo_names
       (Format demo_time (AddDate demo_time demo_now 0 0 (- 7))) [''UCa'', ''UCb''] [] []
     = (demo_search_calls, Inr demo_collected)"
  by (simp add: demo_defs demo_collected_def demo_svc_down_def)

lemma demo_fetch:
  "fetchLatestVideos demo_time demo_svc demo_names [''UCa'', ''UCb''] demo_now
     = Some (demo_calls, Inr demo_result)"
  by (simp add: run_defs demo_defs)

lemma demo_fetch_swapped:
  "fetchLatestVideos demo_time demo_svc demo_names [''UCb'', ''UCa''] demo_now
     = Some (demo_calls_swapped, Inr demo_result)"
  by (simp add: run_defs demo_defs demo_calls_swapped_def)

lemma demo_fetch_down:
  "fetchLatestVideos demo_time demo_svc_down demo_names [''UCa'', ''UCb''] demo_now
     = Some (demo_search_calls @ [Videos_List_call ''a1,b1''], Inr demo_result_down)"
  by (simp add: run_defs demo_defs demo_svc_down_def demo_result_down_def)

lemma demo_fetch_error:
  "fetchLatestVideos demo_time demo_svc demo_names [''UCa'', ''UCx''] demo_now
     = Some (demo_error_calls,
             Inl (returned_error ''fetchLatestVideos: Search.List error: channel not found''))"
  by (simp add: run_defs demo_defs demo_error_calls_def)

lemma demo_stale: "needRefresh demo_stale_cache (demo_now - 1)"
  by (simp add: clock_defs demo_stale_cache_def demo_now_def Let_def)

lemma demo_fresh: "time_Since demo_now (lastFetch demo_fresh_cache) \<le> cacheDuration"
  by (simp add: clock_defs demo_fresh_cache_def demo_now_def Let_def)


section \<open>What the enrichment does to the records\<close>

lemma set_scheduled_unique:
  "length (filter (\<lambda>v. VideoID v = x) vs) \<le> 1 \<Longrightarrow>
   set_scheduled x t vs = map (\<lambda>v. if VideoID v = x then v\<lparr>ScheduledStartTime := t\<rparr> else v) vs"
proof (induction vs)
  case Nil
  then show ?case by simp
next
  case (Cons v vs)
  show ?case
  proof (cases "VideoID v = x")
    case True
    with Cons.prems have "filter (\<lambda>v. VideoID v = x) vs = []" by simp
    then have "\<forall>w\<in>set vs. VideoID w \<noteq> x" by (simp add: filter_empty_conv)
    then have "map (\<lambda>v. if VideoID v = x then v\<lparr>ScheduledStartTime := t\<rparr> else v) vs = vs"
      by (simp add: map_idI)
    with True show ?thesis by simp
  next
    case False
    with Cons show ?thesis by simp
  qed
qed

lemma set_scheduled_other:
  "x \<noteq> y \<Longrightarrow>
   filter (\<lambda>v. VideoID v = y) (set_scheduled x t vs) = filter (\<lambda>v. VideoID v = y) vs"
  by (induction vs) auto

lemma enrich_items_other:
  "\<forall>item\<in>set items. video_Id item \<noteq> y \<Longrightarrow>
   filter (\<lambda>v. VideoID v = y) (enrich_items tm items vs) = filter (\<lambda>v. VideoID v = y) vs"
  by (induction items arbitrary: vs)
     (simp_all add: enrich_items_Cons set_scheduled_other del: enrich_items.simps(2)
        split: option.splits)

lemma enrich_items_map:
  "\<forall>item\<in>set items. detail_time tm item \<noteq> None \<longrightarrow>
      length (filter (\<lambda>v. VideoID v = video_Id item) vs) \<le> 1 \<Longrightarrow>
   enrich_items tm items vs
     = map (\<lambda>v. v\<lparr>ScheduledStartTime := scheduled_by tm items (VideoID v) (ScheduledStartTime v)\<rparr>) vs"
proof (induction items arbitrary: vs)
  case Nil
  then show ?case by simp
next
  case (Cons item items)
  show ?case
  proof (cases "detail_time tm item")
    case None
    with Cons show ?thesis
      by (simp add: enrich_items_Cons del: enrich_items.simps(2))
  next
    case (Some t)
    let ?u = "\<lambda>v. if VideoID v = video_Id item then v\<lparr>ScheduledStartTime := t\<rparr> else v"
    have u: "set_scheduled (video_Id item) t vs = map ?u vs"
      using Cons.prems Some by (intro set_scheduled_unique) simp
    have len: "length (filter (\<lambda>v. VideoID v = y) (map ?u vs)) = length (filter (\<lambda>v. VideoID v = y) vs)"
      for y by (induction vs) auto
    have prem: "\<forall>item\<in>set items. detail_time tm item \<noteq> None \<longrightarrow>
        length (filter (\<lambda>v. VideoID v = video_Id item) (map ?u vs)) \<le> 1"
      unfolding len using Cons.prems by simp
    have "enrich_items tm items (map ?u vs)
            = map (\<lambda>v. v\<lparr>ScheduledStartTime := scheduled_by tm items (VideoID v) (ScheduledStartTime v)\<rparr>)
                (map ?u vs)"
      by (rule Cons.IH[OF prem])
    then show ?thesis
      using Some u by (simp add: enrich_items_Cons comp_def del: enrich_items.simps(2) cong: map_cong)
  qed
qed


lemma scheduled_by_filter:
  "scheduled_by tm (filter (\<lambda>item. video_Id item = x) items) x t = scheduled_by tm items x t"
  by (induction items arbitrary: t) auto

section \<open>What the channel loop collects\<close>

lemma collect_items_step:
  "collect_items tm names c (item # items) videos =
     (case item_outcome tm names c item of
        Inl f \<Rightarrow> Inl f
      | Inr None \<Rightarrow> collect_items tm names c items videos
      | Inr (Some v) \<Rightarrow> collect_items tm names c items (videos @ [v]))"
  by (simp add: item_outcome_def split: option.splits)

lemma item_outcome_fresh:
  "item_outcome tm names c item = Inr (Some v) \<Longrightarrow> ScheduledStartTime v = 0"
  by (auto simp: item_outcome_def split: option.splits)

lemma collect_items_fresh:
  "collect_items tm names c items videos = Inr vs \<Longrightarrow>
   \<forall>v\<in>set videos. ScheduledStartTime v = 0 \<Longrightarrow> \<forall>v\<in>set vs. ScheduledStartTime v = 0"
proof (induction items arbitrary: videos)
  case Nil
  then show ?case by simp
next
  case (Cons item items)
  show ?case
  proof (cases "item_outcome tm names c item")
    case (Inl f)
    with Cons.prems(1) show ?thesis
      by (simp add: collect_items_step del: collect_items.simps(2))
  next
    case (Inr outcome)
    show ?thesis
    proof (cases outcome)
      case None
      with Inr Cons.prems(1) have "collect_items tm names c items videos = Inr vs"
        by (simp add: collect_items_step del: collect_items.simps(2))
      from Cons.IH[OF this Cons.prems(2)] show ?thesis .
    next
      case (Some v)
      with Inr Cons.prems(1) have r: "collect_items tm names c items (videos @ [v]) = Inr vs"
        by (simp add: collect_items_step del: collect_items.simps(2))
      have "ScheduledStartTime v = 0"
        using Inr Some by (intro item_outcome_fresh) simp
      with Cons.prems(2) have "\<forall>w\<in>set (videos @ [v]). ScheduledStartTime w = 0" by simp
      from Cons.IH[OF r this] show ?thesis .
    qed
  qed
qed

lemma collect_channels_fresh:
  "collect_channels tm svc names w cs videos calls = (calls', Inr vs) \<Longrightarrow>
   \<forall>v\<in>set videos. ScheduledStartTime v = 0 \<Longrightarrow> \<forall>v\<in>set vs. ScheduledStartTime v = 0"
proof (induction cs arbitrary: videos calls)
  case Nil
  then show ?case by simp
next
  case (Cons c cs)
  from Cons.prems(1) obtain items videos' where
    i: "collect_items tm names c items videos = Inr videos'" and
    r: "collect_channels tm svc names w cs videos' (calls @ [Search_List_call c w])
          = (calls', Inr vs)"
    by (auto split: sum.splits)
  from collect_items_fresh[OF i Cons.prems(2)] Cons.IH[OF r] show ?case by blast
qed

lemma collect_items_acc:
  "collect_items tm names c items videos =
     (case collect_items tm names c items [] of Inl f \<Rightarrow> Inl f | Inr vs \<Rightarrow> Inr (videos @ vs))"
proof (induction items arbitrary: videos)
  case Nil
  then show ?case by simp
next
  case (Cons item items)
  show ?case
  proof (cases "item_outcome tm names c item")
    case (Inl f)
    then show ?thesis by (simp add: collect_items_step del: collect_items.simps(2))
  next
    case (Inr o1)
    show ?thesis
    proof (cases o1)
      case None
      with Inr Cons.IH[of videos] show ?thesis
        by (simp add: collect_items_step del: collect_items.simps(2))
    next
      case (Some v)
      with Inr Cons.IH[of "videos @ [v]"] Cons.IH[of "[v]"] show ?thesis
        by (simp add: collect_items_step del: collect_items.simps(2) split: sum.splits)
    qed
  qed
qed

lemma collect_channels_step:
  "collect_channels tm svc names w (c # cs) videos calls =
     (case channel_videos tm svc names w c of
        Inl f \<Rightarrow> (calls @ [Search_List_call c w], Inl f)
      | Inr vs \<Rightarrow> collect_channels tm svc names w cs (videos @ vs) (calls @ [Search_List_call c w]))"
  by (simp add: channel_videos_def collect_items_acc[of tm names c _ videos] split: sum.splits)

lemma collect_channels_Inr:
  "collect_channels tm svc names w cs videos calls = (calls', Inr vs) \<Longrightarrow>
   (\<forall>c\<in>set cs. \<exists>vc. channel_videos tm svc names w c = Inr vc) \<and>
   vs = videos @ concat (map (channel_list tm svc names w) cs)"
proof (induction cs arbitrary: videos calls)
  case Nil
  then show ?case by simp
next
  case (Cons c cs)
  from Cons.prems obtain vc where vc: "channel_videos tm svc names w c = Inr vc"
    and r: "collect_channels tm svc names w cs (videos @ vc) (calls @ [Search_List_call c w])
              = (calls', Inr vs)"
    by (auto simp: collect_channels_step simp del: collect_channels.simps(2) split: sum.splits)
  from Cons.IH[OF r] vc show ?case by (simp add: channel_list_def)
qed

lemma collect_channels_all_ok:
  "\<forall>c\<in>set cs. \<exists>vc. channel_videos tm svc names w c = Inr vc \<Longrightarrow>
   snd (collect_channels tm svc names w cs videos calls)
     = Inr (videos @ concat (map (channel_list tm svc names w) cs))"
proof (induction cs arbitrary: videos calls)
  case Nil
  then show ?case by simp
next
  case (Cons c cs)
  from Cons.prems obtain vc where vc: "channel_videos tm svc names w c = Inr vc" by auto
  from Cons.prems have "\<forall>c\<in>set cs. \<exists>vc. channel_videos tm svc names w c = Inr vc" by simp
  from Cons.IH[OF this] vc show ?case
    by (simp add: collect_channels_step channel_list_def del: collect_channels.simps(2))
qed

lemma mset_concat_map_cong:
  "mset xs = mset ys \<Longrightarrow> mset (concat (map g xs)) = mset (concat (map g ys))"
proof -
  assume a: "mset xs = mset ys"
  have "mset (concat (map g zs)) = (\<Sum>z\<in>#mset zs. mset (g z))" for zs :: "'a list"
    by (induction zs) auto
  then show ?thesis using a by simp
qed

section \<open>The result of a successful fetch\<close>

lemma logged_details_append:
  "logged_details svc (xs @ ys) = logged_details svc xs @ logged_details svc ys"
  by (simp add: logged_details_def)

lemma logged_details_searches:
  "logged_details svc (map (\<lambda>c. Search_List_call c w) cs) = []"
  by (simp add: logged_details_def)

text \<open>What a successful fetch returns, in terms of what was collected.\<close>

lemma fetch_success:
  assumes "fetchLatestVideos tm svc channelNames channelIDs now = Some (calls, Inr videos)"
  obtains calls0 collected where
    "collect_channels tm svc channelNames (weekAgo_of tm now) channelIDs [] [] = (calls0, Inr collected)"
    "calls = calls0 @ map (\<lambda>b. Videos_List_call (strings_Join b '',''))
                       (chunks_of 50 (upcomingIDs_of collected))"
    "logged_details svc calls0 = []"
    "videos = sort_Slice (enrich_items tm (logged_details svc calls) collected) published_less"
    "\<forall>v\<in>set collected. ScheduledStartTime v = 0"
proof -
  obtain calls0 r where
    c: "collect_channels tm svc channelNames (weekAgo_of tm now) channelIDs [] [] = (calls0, r)"
    by (cases "collect_channels tm svc channelNames (weekAgo_of tm now) channelIDs [] []") auto
  with assms obtain collected where r: "r = Inr collected" by (cases r) (auto simp: fetch_eq)
  from collect_channels_log[OF c] have l: "logged_details svc calls0 = []"
    by (auto simp: logged_details_searches)
  have f: "\<forall>v\<in>set collected. ScheduledStartTime v = 0"
    using collect_channels_fresh[OF c[unfolded r]] by simp
  show ?thesis
    using assms c r l f
    by (intro that[of calls0 collected]) (auto simp: fetch_eq logged_details_append)
qed

lemma in_logged_details_batches:
  "item \<in> set (logged_details svc (map (\<lambda>b. Videos_List_call (strings_Join b '','')) batches))
     \<longleftrightarrow> (\<exists>batch\<in>set batches. \<exists>items.
            Videos_List svc (strings_Join batch '','') = Inr items \<and> item \<in> set items)"
  by (induction batches) (auto simp: logged_details_def split: sum.splits)

lemma sort_Slice_fields:
  "mset (map f (sort_Slice xs lt)) = mset (map f xs)"
  by (metis mset_map sort_Slice_mset)

lemma sorted_desc_unique:
  assumes "sorted_wrt (\<lambda>a b. Published b \<le> Published a) xs"
    and "sorted_wrt (\<lambda>a b. Published b \<le> Published a) ys"
    and "mset xs = mset ys"
    and "distinct (map Published xs)"
  shows "xs = ys"
proof -
  have m: "mset (map Published xs) = mset (map Published ys)"
    using assms(3) by simp
  have dy: "distinct (map Published ys)"
    using assms(4) m by (metis mset_eq_imp_distinct_iff)
  have sx: "sorted (rev (map Published xs))"
    using assms(1) by (simp add: sorted_wrt_rev sorted_wrt_map flip: rev_map)
  have sy: "sorted (rev (map Published ys))"
    using assms(2) by (simp add: sorted_wrt_rev sorted_wrt_map flip: rev_map)
  have "set (rev (map Published xs)) = set (rev (map Published ys))"
    using m by (metis set_rev mset_eq_setD)
  then have "rev (map Published xs) = rev (map Published ys)"
    using sx sy assms(4) dy by (intro sorted_distinct_set_unique) simp_all
  then have e: "map Published xs = map Published ys" by simp
  have "inj_on Published (set xs \<union> set ys)"
    using assms(3,4) by (metis distinct_map mset_eq_setD sup.idem)
  then show ?thesis using e by (simp add: inj_on_map_eq_map)
qed

lemma Video_eq_except_scheduled:
  "v\<lparr>ScheduledStartTime := 0\<rparr> = w\<lparr>ScheduledStartTime := 0\<rparr> \<Longrightarrow>
   ScheduledStartTime v = ScheduledStartTime w \<Longrightarrow> v = (w :: Video)"
  by (cases v, cases w) simp

lemma count_VideoID:
  "length (filter (\<lambda>v. VideoID v = x) ys) = count (mset (map VideoID ys)) x"
  by (induction ys) auto

text \<open>
  When no two records share the ID of a usable detail record, every returned record
  carries the value that the received detail records leave for its ID.
\<close>

lemma fetch_scheduled:
  assumes fetch: "fetchLatestVideos tm svc channelNames channelIDs now = Some (calls, Inr videos)"
    and unique: "\<forall>item\<in>set (logged_details svc calls). detail_time tm item \<noteq> None \<longrightarrow>
          length (filter (\<lambda>v. VideoID v = video_Id item) videos) \<le> 1"
  shows "\<forall>r\<in>set videos.
           ScheduledStartTime r = scheduled_by tm (logged_details svc calls) (VideoID r) 0"
proof
  fix r assume r: "r \<in> set videos"
  from fetch obtain calls0 collected where
    v: "videos = sort_Slice (enrich_items tm (logged_details svc calls) collected) published_less"
    and fresh: "\<forall>v\<in>set collected. ScheduledStartTime v = 0"
    by (rule fetch_success)
  let ?R = "logged_details svc calls"
  let ?E = "enrich_items tm ?R collected"
  have "mset (map VideoID videos) = mset (map VideoID ?E)"
    unfolding v by (rule sort_Slice_fields)
  also have "map VideoID ?E = map VideoID collected"
    by (rule enrich_items_fields(1))
  finally have ids: "mset (map VideoID videos) = mset (map VideoID collected)" .
  have len: "length (filter (\<lambda>v. VideoID v = x) videos)
               = length (filter (\<lambda>v. VideoID v = x) collected)" for x
    unfolding count_VideoID using ids by simp
  have E: "?E = map (\<lambda>v. v\<lparr>ScheduledStartTime :=
                     scheduled_by tm ?R (VideoID v) (ScheduledStartTime v)\<rparr>) collected"
    using unique by (intro enrich_items_map) (simp add: len)
  have "r \<in> set ?E" using r v by (simp add: sort_Slice_set)
  then obtain c where c: "c \<in> set collected"
    and rc: "r = c\<lparr>ScheduledStartTime := scheduled_by tm ?R (VideoID c) (ScheduledStartTime c)\<rparr>"
    unfolding E by auto
  show "ScheduledStartTime r = scheduled_by tm ?R (VideoID r) 0"
    using rc c fresh by simp
qed

lemma fetch_stripped:
  assumes "fetchLatestVideos tm svc channelNames channelIDs now = Some (calls, Inr videos)"
  obtains collected where
    "snd (collect_channels tm svc channelNames (weekAgo_of tm now) channelIDs [] []) = Inr collected"
    "mset (map (\<lambda>v. v\<lparr>ScheduledStartTime := 0\<rparr>) videos)
       = mset (map (\<lambda>v. v\<lparr>ScheduledStartTime := 0\<rparr>) collected)"
    "sorted_wrt (\<lambda>a b. Published b \<le> Published a) (map (\<lambda>v. v\<lparr>ScheduledStartTime := 0\<rparr>) videos)"
proof -
  from assms obtain calls0 collected where
    c: "collect_channels tm svc channelNames (weekAgo_of tm now) channelIDs [] [] = (calls0, Inr collected)"
    and v: "videos = sort_Slice (enrich_items tm (logged_details svc calls) collected) published_less"
    by (rule fetch_success)
  let ?E = "enrich_items tm (logged_details svc calls) collected"
  have "mset (map (\<lambda>v. v\<lparr>ScheduledStartTime := 0\<rparr>) videos)
          = mset (map (\<lambda>v. v\<lparr>ScheduledStartTime := 0\<rparr>) ?E)"
    unfolding v by (rule sort_Slice_fields)
  then have m: "mset (map (\<lambda>v. v\<lparr>ScheduledStartTime := 0\<rparr>) videos)
       = mset (map (\<lambda>v. v\<lparr>ScheduledStartTime := 0\<rparr>) collected)"
    by (simp only: enrich_items_strip)
  have "sorted_wrt (\<lambda>a b. Published b \<le> Published a) videos"
    unfolding v by (rule sort_Slice_published_sorted)
  then have s: "sorted_wrt (\<lambda>a b. Published b \<le> Published a)
                  (map (\<lambda>v. v\<lparr>ScheduledStartTime := 0\<rparr>) videos)"
    by (simp add: sorted_wrt_map)
  show ?thesis using c m s by (intro that[of collected]) simp_all
qed




lemma set_scheduled_skip:
  "\<forall>v\<in>set xs. VideoID v \<noteq> x \<Longrightarrow> set_scheduled x t (xs @ ys) = xs @ set_scheduled x t ys"
  by (induction xs) auto


text \<open>
  A collected record for whose ID no answered batch brings a detail record is returned
  as it was collected.
\<close>

lemma unanswered_record_kept:
  assumes collect: "collect_channels tm svc channelNames (Format tm (AddDate tm now 0 0 (- 7)))
                      channelIDs [] [] = (calls0, Inr collected)"
    and batches: "splitChunks (upcomingIDs_of collected) 50 = Some batches"
  shows "\<exists>calls videos.
           fetchLatestVideos tm svc channelNames channelIDs now = Some (calls, Inr videos) \<and>
           (\<forall>v\<in>set collected.
              (\<forall>batch\<in>set batches.
                 case Videos_List svc (strings_Join batch '','') of
                   Inl err \<Rightarrow> True
                 | Inr items \<Rightarrow> VideoID v \<notin> video_Id ` set items)
              \<longrightarrow> v \<in> set videos \<and> ScheduledStartTime v = 0)"
proof -
  have b: "batches = chunks_of 50 (upcomingIDs_of collected)"
    using batches by (simp add: splitChunks_pos)
  let ?calls = "calls0 @ map (\<lambda>b. Videos_List_call (strings_Join b '','')) batches"
  let ?R = "logged_details svc (map (\<lambda>b. Videos_List_call (strings_Join b '','')) batches)"
  let ?videos = "sort_Slice (enrich_items tm ?R collected) published_less"
  have f: "fetchLatestVideos tm svc channelNames channelIDs now = Some (?calls, Inr ?videos)"
    using collect by (simp add: fetch_eq weekAgo_of_def b)
  have fresh: "\<forall>v\<in>set collected. ScheduledStartTime v = 0"
    using collect_channels_fresh[OF collect] by simp
  have keep: "v \<in> set ?videos"
    if v: "v \<in> set collected"
      and h: "\<forall>batch\<in>set batches.
                 case Videos_List svc (strings_Join batch '','') of
                   Inl err \<Rightarrow> True
                 | Inr items \<Rightarrow> VideoID v \<notin> video_Id ` set items"
    for v
  proof -
    have "\<forall>item\<in>set ?R. video_Id item \<noteq> VideoID v"
    proof
      fix item assume "item \<in> set ?R"
      then obtain batch items where b: "batch \<in> set batches"
        "Videos_List svc (strings_Join batch '','') = Inr items" "item \<in> set items"
        unfolding in_logged_details_batches by blast
      from bspec[OF h b(1)] b(2) have "VideoID v \<notin> video_Id ` set items" by simp
      with b(3) show "video_Id item \<noteq> VideoID v" by (metis imageI)
    qed
    from enrich_items_other[OF this]
    have "filter (\<lambda>w. VideoID w = VideoID v) (enrich_items tm ?R collected)
            = filter (\<lambda>w. VideoID w = VideoID v) collected" .
    moreover have "v \<in> set (filter (\<lambda>w. VideoID w = VideoID v) collected)" using v by simp
    ultimately have "v \<in> set (filter (\<lambda>w. VideoID w = VideoID v) (enrich_items tm ?R collected))"
      by simp
    then have "v \<in> set (enrich_items tm ?R collected)"
      by simp
    then show ?thesis by (simp add: sort_Slice_set)
  qed
  show ?thesis
    using f keep fresh by blast
qed

section \<open>More of the concrete runs\<close>

lemma demo_logged:
  "logged_details demo_svc demo_calls
     = [demo_detail ''a1'' [], demo_detail ''b1'' ''2024-05-06T18:00:00Z'']"
  by (simp add: logged_details_def demo_defs)

lemma demo_logged_swapped:
  "logged_details demo_svc demo_calls_swapped
     = [demo_detail ''b1'' ''2024-05-06T18:00:00Z'', demo_detail ''a1'' []]"
  by (simp add: logged_details_def demo_defs demo_calls_swapped_def)





















lemma many_collect_items:
  "collect_items demo_time demo_names ''UCa''
       (map (\<lambda>vid. demo_item vid ''2024-05-01T10:00:00Z'' ''upcoming'') ids) videos
     = Inr (videos @ map (\<lambda>vid. demo_video vid ''Alpha'' 63850154400000000000 ''upcoming'' 0) ids)"
  by (induction ids arbitrary: videos)
     (simp_all add: demo_time_def demo_names_def demo_item_def demo_video_def)

lemma many_collect:
  "collect_channels demo_time many_svc demo_names
       (Format demo_time (AddDate demo_time demo_now 0 0 (- 7))) [''UCa'', ''UCb''] [] []
     = (demo_search_calls, Inr many_collected)"
proof -
  have w: "Format demo_time (AddDate demo_time demo_now 0 0 (- 7)) = ''2024-04-27T10:00:00Z''"
    by (simp add: demo_time_def demo_now_def)
  have a: "Search_List many_svc ''UCa'' ''2024-04-27T10:00:00Z''
        = Inr (map (\<lambda>vid. demo_item vid ''2024-05-01T10:00:00Z'' ''upcoming'') many_ids)"
    by (simp add: many_svc_def)
  have b: "Search_List many_svc ''UCb'' ''2024-04-27T10:00:00Z''
        = Inr [demo_item ''w'' ''2024-05-02T10:00:00Z'' ''upcoming'']"
    by (simp add: many_svc_def)
  have c: "collect_items demo_time demo_names ''UCb''
             [demo_item ''w'' ''2024-05-02T10:00:00Z'' ''upcoming''] videos
           = Inr (videos @ [many_w])" for videos
    by (simp add: demo_time_def demo_names_def demo_item_def demo_video_def many_w_def)
  show ?thesis
    unfolding w
    by (simp add: a b c many_collect_items many_collected_def demo_search_calls_def
        del: collect_items.simps)
qed

lemma many_ids_eq: "many_ids = ''v'' # map (\<lambda>i. replicate (Suc i) CHR ''v'') [1..<50]"
  by (simp add: many_ids_def upt_conv_Cons)

lemma many_ids_length: "length many_ids = 50"
  by (simp add: many_ids_def)

lemma many_upcoming: "upcomingIDs_of many_collected = many_ids @ [''w'']"
  by (simp add: upcomingIDs_of_def many_collected_def many_w_def demo_video_def comp_def)

lemma many_batches: "splitChunks (upcomingIDs_of many_collected) 50 = Some [many_ids, [''w'']]"
proof -
  have "chunks_of 50 (many_ids @ [''w'']) = many_ids # chunks_of 50 [''w'']"
    by (subst chunks_of.simps) (simp add: many_ids_length)
  also have "chunks_of 50 [''w''] = [[''w'']]"
    by (simp add: chunks_of_short)
  finally show ?thesis by (simp add: many_upcoming splitChunks_pos)
qed

lemma strings_Join_hd:
  assumes "xs \<noteq> []" and "hd xs \<noteq> []"
  shows "hd (strings_Join xs sep) = hd (hd xs)"
proof (cases xs)
  case Nil
  with assms show ?thesis by simp
next
  case (Cons x ys)
  with assms show ?thesis by (cases ys) auto
qed

lemma many_first_batch_fails:
  "Videos_List many_svc (strings_Join many_ids '','') = Inl ''quota exceeded''"
proof -
  have "hd (strings_Join many_ids '','') = CHR ''v''"
    by (subst strings_Join_hd) (simp_all add: many_ids_eq)
  then have "strings_Join many_ids '','' \<noteq> ''w''" by auto
  then show ?thesis by (simp add: many_svc_def)
qed

lemma many_v_collected: "many_v \<in> set many_collected"
  by (simp add: many_collected_def many_ids_eq many_v_def)

lemma many_w_fresh: "''w'' \<notin> set many_ids"
  by (auto simp: many_ids_def)

lemma many_second_batch:
  "Videos_List many_svc (strings_Join [''w''] '','') = Inr [demo_detail ''w'' ''2024-05-06T18:00:00Z'']"
  by (simp add: many_svc_def)

lemma many_answers: "answers_requested many_svc [many_ids, [''w'']]"
  by (simp add: answers_requested_def many_first_batch_fails many_second_batch demo_detail_def
      del: strings_Join.simps)

lemma many_fetch:
  "fetchLatestVideos demo_time many_svc demo_names [''UCa'', ''UCb''] demo_now
     = Some (many_calls, Inr (sort_Slice many_enriched published_less))"
proof -
  have b: "chunks_of 50 (upcomingIDs_of many_collected) = [many_ids, [''w'']]"
    using many_batches by (simp add: splitChunks_pos)
  have l: "logged_details many_svc
             [Videos_List_call (strings_Join many_ids '',''), Videos_List_call ''w'']
           = [demo_detail ''w'' ''2024-05-06T18:00:00Z'']"
    by (simp add: logged_details_def many_first_batch_fails) (simp add: many_svc_def)
  have n: "\<forall>v\<in>set (map (\<lambda>vid. demo_video vid ''Alpha'' 63850154400000000000 ''upcoming'' 0)
                       many_ids). VideoID v \<noteq> ''w''"
    using many_w_fresh by (auto simp: demo_video_def)
  have "set_scheduled ''w'' 63850615200000000000 many_collected = many_enriched"
    unfolding many_collected_def many_enriched_def set_scheduled_skip[OF n]
    by (simp add: many_w_def demo_video_def)
  then have e: "enrich_items demo_time [demo_detail ''w'' ''2024-05-06T18:00:00Z''] many_collected
             = many_enriched"
    by (simp add: demo_detail_def demo_time_def time_In_Local_def)
  show ?thesis
    unfolding fetch_eq weekAgo_of_def many_collect
    by (simp add: b l e many_calls_def del: enrich_items.simps)
qed

section \<open>The refresh coordinator\<close>

text \<open>
  The handler is modelled for one request at a time: the statements below are about what
  a single run of the handler does to the state it starts from.
\<close>

text \<open>
  Claim C1. When a refresh is attempted and \<open>fetchLatestVideos\<close> returns an error, the
  handler leaves \<open>cachedVideos\<close> and \<open>lastFetch\<close> exactly as they were, and the request
  gets \<open>http.Error\<close> with status 500 and the error's message, not a page.
\<close>

theorem failed_refresh_leaves_cache:
  assumes "needRefresh c now_check"
    and "fetchLatestVideos tm svc channelNames channelIDs now_fetch
           = Some (calls, Inl (returned_error err))"
  shows "handler tm svc channelNames channelIDs tmpl_Execute now_check now_fetch now_store c
           = Some (c, calls,
               RefreshError StatusInternalServerError (''YouTube API error: '' @ err))"
  using assms by (simp add: handler_def refresh_def)

theorem failed_refresh_leaves_cache_witness:
  "needRefresh demo_stale_cache (demo_now - 1) \<and>
   fetchLatestVideos demo_time demo_svc demo_names [''UCa'', ''UCx''] demo_now
     = Some (demo_error_calls,
             Inl (returned_error ''fetchLatestVideos: Search.List error: channel not found'')) \<and>
   handler demo_time demo_svc demo_names [''UCa'', ''UCx''] demo_tmpl
       (demo_now - 1) demo_now (demo_now + 7) demo_stale_cache
     = Some (demo_stale_cache, demo_error_calls,
             RefreshError 500
               ''YouTube API error: fetchLatestVideos: Search.List error: channel not found'')"
  using failed_refresh_leaves_cache [OF demo_stale demo_fetch_error, of demo_tmpl "demo_now + 7"]
    demo_stale demo_fetch_error
  by (simp add: StatusInternalServerError_def)

text \<open>
  Claim C2. When the time elapsed since \<open>lastFetch\<close> is not greater than \<open>cacheDuration\<close>,
  the handler makes no remote call, leaves the state as it is, and hands the template a
  list equal to \<open>cachedVideos\<close>.
\<close>

theorem fresh_cache_served_without_calls:
  assumes "time_Since now_check (lastFetch c) \<le> cacheDuration"
  shows "handler tm svc channelNames channelIDs tmpl_Execute now_check now_fetch now_store c
           = Some (c, [],
               case tmpl_Execute (cachedVideos c) of
                 None \<Rightarrow> Page (cachedVideos c)
               | Some err \<Rightarrow> RenderError (cachedVideos c) StatusInternalServerError err)"
  using assms by (simp add: handler_def needRefresh_def render_eq)

theorem fresh_cache_served_without_calls_witness:
  "time_Since demo_now (lastFetch demo_fresh_cache) \<le> cacheDuration \<and>
   handler demo_time demo_svc demo_names [''UCa'', ''UCb''] demo_tmpl
       demo_now demo_now demo_now demo_fresh_cache
     = Some (demo_fresh_cache, [], Page demo_result)"
  using fresh_cache_served_without_calls [OF demo_fresh, of demo_time demo_svc demo_names
      "[''UCa'', ''UCb'']" demo_tmpl demo_now demo_now] demo_fresh
  by (simp add: demo_tmpl_def demo_fresh_cache_def)

text \<open>
  Claim C5. At startup the snapshot is empty and \<open>lastFetch\<close> lies two cache windows
  before the startup reading of the clock, so the staleness test holds at the first
  request, whenever it comes (the clock readings that \<open>time.Since\<close> compares do not
  decrease), and the handler takes the refresh branch.
\<close>

theorem first_request_refreshes:
  assumes "t0 \<le> t1"
  shows "cachedVideos (initial_cache t0) = [] \<and>
         lastFetch (initial_cache t0) = t0 - 2 * cacheDuration \<and>
         needRefresh (initial_cache t0) t1 \<and>
         handler tm svc channelNames channelIDs tmpl_Execute t1 now_fetch now_store
             (initial_cache t0)
           = refresh tm svc channelNames channelIDs tmpl_Execute now_fetch now_store
               (initial_cache t0)"
proof -
  have "needRefresh (initial_cache t0) t1"
    using assms by (simp add: clock_defs initial_cache_def Let_def)
  then show ?thesis
    by (simp add: handler_def initial_cache_def time_Add_def)
qed

theorem first_request_refreshes_witness:
  "demo_now - 3000000000 \<le> demo_now - 1 \<and>
   needRefresh (initial_cache (demo_now - 3000000000)) (demo_now - 1) \<and>
   handler demo_time demo_svc demo_names [''UCa'', ''UCb''] demo_tmpl
       (demo_now - 1) demo_now (demo_now + 2000000000) (initial_cache (demo_now - 3000000000))
     = Some (\<lparr>cachedVideos = demo_result, lastFetch = demo_now + 2000000000\<rparr>,
             demo_calls, Page demo_result)"
proof -
  have h: "demo_now - 3000000000 \<le> demo_now - 1" by simp
  have r: "refresh demo_time demo_svc demo_names [''UCa'', ''UCb''] demo_tmpl
             demo_now (demo_now + 2000000000) (initial_cache (demo_now - 3000000000))
           = Some (\<lparr>cachedVideos = demo_result, lastFetch = demo_now + 2000000000\<rparr>,
                   demo_calls, Page demo_result)"
    using demo_fetch by (simp add: refresh_def render_eq demo_tmpl_def initial_cache_def)
  show ?thesis
    using first_request_refreshes [OF h, of demo_time demo_svc demo_names "[''UCa'', ''UCb'']"
        demo_tmpl demo_now "demo_now + 2000000000"] r
    by simp
qed




section \<open>The fetch pipeline\<close>

text \<open>
  Claim C3. The list that a successful \<open>fetchLatestVideos\<close> returns is sorted by
  \<open>Published\<close>, latest first: every record is at least as late as the one after it
  (and as every later one).
\<close>

theorem fetched_videos_sorted_descending:
  assumes "fetchLatestVideos tm svc channelNames channelIDs now = Some (calls, Inr videos)"
  shows "sorted_wrt (\<lambda>a b. Published a \<ge> Published b) videos \<and>
         (\<forall>i. Suc i < length videos \<longrightarrow> Published (videos ! i) \<ge> Published (videos ! Suc i))"
proof -
  have "\<exists>vs. videos = sort_Slice vs published_less"
    using assms by (auto simp: fetch_eq split: prod.splits sum.splits)
  then have "sorted_wrt (\<lambda>a b. Published a \<ge> Published b) videos"
    using sort_Slice_published_sorted by auto
  then show ?thesis
    by (auto simp: sorted_wrt_iff_nth_less)
qed

theorem fetched_videos_sorted_descending_witness:
  "fetchLatestVideos demo_time demo_svc demo_names [''UCa'', ''UCb''] demo_now
     = Some (demo_calls, Inr demo_result) \<and>
   sorted_wrt (\<lambda>a b. Published a \<ge> Published b) demo_result \<and>
   Published (demo_result ! 0) \<ge> Published (demo_result ! 1) \<and>
   Published (demo_result ! 1) \<ge> Published (demo_result ! 2)"
proof -
  have l: "length demo_result = 3" by (simp add: demo_result_def)
  note t = fetched_videos_sorted_descending [OF demo_fetch]
  have a: "Published (demo_result ! 0) \<ge> Published (demo_result ! 1)"
    using t [THEN conjunct2, rule_format, of 0] l by simp
  have b: "Published (demo_result ! 1) \<ge> Published (demo_result ! 2)"
    using t [THEN conjunct2, rule_format, of 1] l by (simp add: numeral_2_eq_2)
  show ?thesis
    using t [THEN conjunct1] demo_fetch a b by blast
qed

text \<open>
  Claim C6. A search item whose published timestamp does not parse is skipped and has
  no other effect: \<open>fetchLatestVideos\<close> does exactly what it does when the search
  results come without such items, and a successful call returns one record for every
  item that parses.
\<close>

theorem unparsable_items_dropped:
  "fetchLatestVideos tm (drop_unparsable tm svc) channelNames channelIDs now
     = fetchLatestVideos tm svc channelNames channelIDs now \<and>
   (\<forall>calls videos.
      fetchLatestVideos tm svc channelNames channelIDs now = Some (calls, Inr videos) \<longrightarrow>
      mset (map VideoID videos) =
        mset (concat (map (\<lambda>c.
          case Search_List svc c (Format tm (AddDate tm now 0 0 (- 7))) of
            Inl err \<Rightarrow> []
          | Inr items \<Rightarrow> map item_VideoId (filter (\<lambda>item. \<not> unparsable tm item) items))
          channelIDs)))"
proof (intro conjI allI impI)
  have "Videos_List (drop_unparsable tm svc) = Videos_List svc"
    by (simp add: drop_unparsable_def)
  then show "fetchLatestVideos tm (drop_unparsable tm svc) channelNames channelIDs now
     = fetchLatestVideos tm svc channelNames channelIDs now"
    by (simp add: fetch_eq collect_channels_drop_unparsable logged_details_drop_unparsable
        split: prod.splits sum.splits)
next
  fix calls videos
  assume f: "fetchLatestVideos tm svc channelNames channelIDs now = Some (calls, Inr videos)"
  obtain calls0 r where
    c: "collect_channels tm svc channelNames (weekAgo_of tm now) channelIDs [] [] = (calls0, r)"
    by (cases "collect_channels tm svc channelNames (weekAgo_of tm now) channelIDs [] []") auto
  with f obtain vs where r: "r = Inr vs" by (cases r) (auto simp: fetch_eq)
  define details where "details = logged_details svc
    (map (\<lambda>b. Videos_List_call (strings_Join b '','')) (chunks_of 50 (upcomingIDs_of vs)))"
  from f c r have "mset videos = mset (enrich_items tm details vs)"
    by (auto simp: fetch_eq sort_Slice_mset details_def)
  then have "mset (map VideoID videos) = mset (map VideoID (enrich_items tm details vs))"
    by (metis mset_map)
  also have "\<dots> = mset (map VideoID vs)"
    by (simp add: enrich_items_fields(1))
  also have "map VideoID vs = concat (map (channel_item_ids tm svc (weekAgo_of tm now)) channelIDs)"
    using collect_channels_ids[OF c[unfolded r]] by simp
  finally show "mset (map VideoID videos) =
        mset (concat (map (\<lambda>c.
          case Search_List svc c (Format tm (AddDate tm now 0 0 (- 7))) of
            Inl err \<Rightarrow> []
          | Inr items \<Rightarrow> map item_VideoId (filter (\<lambda>item. \<not> unparsable tm item) items))
          channelIDs))"
    by (simp add: channel_item_ids_def[abs_def] weekAgo_of_def)
qed

theorem unparsable_items_dropped_witness:
  "unparsable demo_time (demo_item ''a2'' ''yesterday'' ''none'') \<and>
   fetchLatestVideos demo_time (drop_unparsable demo_time demo_svc) demo_names
       [''UCa'', ''UCb''] demo_now
     = Some (demo_calls, Inr demo_result) \<and>
   mset (map VideoID demo_result) = mset [''a1'', ''b1'', ''b2'']"
proof -
  have u: "unparsable demo_time (demo_item ''a2'' ''yesterday'' ''none'')"
    by (simp add: unparsable_def demo_item_def demo_time_def)
  have m: "mset (map VideoID demo_result) = mset [''a1'', ''b1'', ''b2'']"
    by (simp add: demo_result_def demo_video_def)
  show ?thesis
    using unparsable_items_dropped [of demo_time demo_svc demo_names "[''UCa'', ''UCb'']" demo_now]
      demo_fetch u m by simp
qed

text \<open>
  Claim C10. Every call of \<open>fetchLatestVideos\<close> computes the lower bound of its searches
  from its own reading of the clock: the remote calls it makes are searches, one per
  channel in order up to the first failure, each with \<open>PublishedAfter\<close> set to the
  RFC3339 form of that reading moved back by seven days, followed by detail lookups.
\<close>

theorem search_bound_recomputed_each_fetch:
  assumes "fetchLatestVideos tm svc channelNames channelIDs now = Some (calls, res)"
  shows "\<exists>k batches. k \<le> length channelIDs \<and>
           calls = map (\<lambda>c. Search_List_call c (Format tm (AddDate tm now 0 0 (- 7))))
                     (take k channelIDs)
                   @ map (\<lambda>b. Videos_List_call (strings_Join b '','')) batches \<and>
           (\<forall>videos. res = Inr videos \<longrightarrow> k = length channelIDs)"
proof -
  obtain calls0 r where
    c: "collect_channels tm svc channelNames (weekAgo_of tm now) channelIDs [] [] = (calls0, r)"
    by (cases "collect_channels tm svc channelNames (weekAgo_of tm now) channelIDs [] []") auto
  from collect_channels_log[OF c] obtain k where k: "k \<le> length channelIDs"
    "calls0 = map (\<lambda>c. Search_List_call c (weekAgo_of tm now)) (take k channelIDs)"
    "\<forall>vs. r = Inr vs \<longrightarrow> k = length channelIDs" by auto
  show ?thesis
  proof (cases r)
    case (Inl f)
    with assms c k show ?thesis
      by (intro exI[of _ k] exI[of _ "[]"]) (auto simp: fetch_eq weekAgo_of_def)
  next
    case (Inr vs)
    with assms c k show ?thesis
      by (intro exI[of _ k] exI[of _ "chunks_of 50 (upcomingIDs_of vs)"])
         (auto simp: fetch_eq weekAgo_of_def)
  qed
qed

theorem search_bound_recomputed_each_fetch_witness:
  "fetchLatestVideos demo_time demo_svc demo_names [''UCa'', ''UCb''] demo_now
     = Some (demo_calls, Inr demo_result) \<and>
   Format demo_time (AddDate demo_time demo_now 0 0 (- 7)) = ''2024-04-27T10:00:00Z'' \<and>
   (\<exists>k batches. k \<le> length [''UCa'', ''UCb''] \<and>
      demo_calls = map (\<lambda>c. Search_List_call c
                               (Format demo_time (AddDate demo_time demo_now 0 0 (- 7))))
                     (take k [''UCa'', ''UCb''])
                   @ map (\<lambda>b. Videos_List_call (strings_Join b '','')) batches \<and>
      (\<forall>videos. Inr demo_result = Inr videos \<longrightarrow> k = length [''UCa'', ''UCb'']))"
proof -
  have w: "Format demo_time (AddDate demo_time demo_now 0 0 (- 7)) = ''2024-04-27T10:00:00Z''"
    by (simp add: demo_time_def demo_now_def)
  show ?thesis
    using search_bound_recomputed_each_fetch [OF demo_fetch] demo_fetch w
    by (simp del: One_nat_def)
qed





text \<open>
  Claim C7. When the channel loop has succeeded, \<open>fetchLatestVideos\<close> returns a list
  whatever the detail calls do. For an upcoming video whose detail-lookup batch fails (every
  batch that names its ID returns an error), with a detail service that answers each
  batch only with records for IDs of that batch, the returned list contains the collected
  record, upcoming and with a zero \<open>ScheduledStartTime\<close>.
\<close>

theorem failed_batch_leaves_record_unset:
  assumes collect: "collect_channels tm svc channelNames (Format tm (AddDate tm now 0 0 (- 7)))
                      channelIDs [] [] = (calls0, Inr collected)"
    and batches: "splitChunks (upcomingIDs_of collected) 50 = Some batches"
  shows "\<exists>calls videos.
           fetchLatestVideos tm svc channelNames channelIDs now = Some (calls, Inr videos) \<and>
           (\<forall>v\<in>set collected.
              LiveStatus v = ''upcoming'' \<and>
              answers_requested svc batches \<and>
              (\<forall>batch\<in>set batches.
                 VideoID v \<in> set batch \<longrightarrow> isl (Videos_List svc (strings_Join batch '','')))
              \<longrightarrow> v \<in> set videos \<and> LiveStatus v = ''upcoming'' \<and> ScheduledStartTime v = 0)"
proof -
  from unanswered_record_kept [OF collect batches]
  obtain calls videos where
    f: "fetchLatestVideos tm svc channelNames channelIDs now = Some (calls, Inr videos)"
    and k: "\<forall>v\<in>set collected.
              (\<forall>batch\<in>set batches.
                 case Videos_List svc (strings_Join batch '','') of
                   Inl err \<Rightarrow> True
                 | Inr items \<Rightarrow> VideoID v \<notin> video_Id ` set items)
              \<longrightarrow> v \<in> set videos \<and> ScheduledStartTime v = 0"
    by blast
  have "v \<in> set videos \<and> LiveStatus v = ''upcoming'' \<and> ScheduledStartTime v = 0"
    if v: "v \<in> set collected" and u: "LiveStatus v = ''upcoming''"
      and c: "answers_requested svc batches"
      and d: "\<forall>batch\<in>set batches.
                VideoID v \<in> set batch \<longrightarrow> isl (Videos_List svc (strings_Join batch '',''))"
    for v
  proof -
    have "\<forall>batch\<in>set batches.
            case Videos_List svc (strings_Join batch '','') of
              Inl err \<Rightarrow> True
            | Inr items \<Rightarrow> VideoID v \<notin> video_Id ` set items"
    proof
      fix batch assume b: "batch \<in> set batches"
      show "case Videos_List svc (strings_Join batch '','') of
              Inl err \<Rightarrow> True
            | Inr items \<Rightarrow> VideoID v \<notin> video_Id ` set items"
      proof (cases "Videos_List svc (strings_Join batch '','')")
        case (Inl err)
        then show ?thesis by simp
      next
        case (Inr items)
        with d b have n: "VideoID v \<notin> set batch" by auto
        from c b have "case Videos_List svc (strings_Join batch '','') of
            Inl err \<Rightarrow> True
          | Inr items \<Rightarrow> (\<forall>item\<in>set items. video_Id item \<in> set batch)"
          unfolding answers_requested_def by (rule bspec)
        with Inr have "\<forall>item\<in>set items. video_Id item \<in> set batch" by simp
        with n have "VideoID v \<notin> video_Id ` set items" by auto
        with Inr show ?thesis by simp
      qed
    qed
    with k v u show ?thesis by blast
  qed
  with f show ?thesis by blast
qed

theorem failed_batch_leaves_record_unset_witness:
  "collect_channels demo_time many_svc demo_names
       (Format demo_time (AddDate demo_time demo_now 0 0 (- 7))) [''UCa'', ''UCb''] [] []
     = (demo_search_calls, Inr many_collected) \<and>
   splitChunks (upcomingIDs_of many_collected) 50 = Some [many_ids, [''w'']] \<and>
   many_v \<in> set many_collected \<and> LiveStatus many_v = ''upcoming'' \<and>
   answers_requested many_svc [many_ids, [''w'']] \<and>
   VideoID many_v \<in> set many_ids \<and> VideoID many_v \<notin> set [''w''] \<and>
   Videos_List many_svc (strings_Join many_ids '','') = Inl ''quota exceeded'' \<and>
   Videos_List many_svc (strings_Join [''w''] '','')
     = Inr [demo_detail ''w'' ''2024-05-06T18:00:00Z''] \<and>
   fetchLatestVideos demo_time many_svc demo_names [''UCa'', ''UCb''] demo_now
     = Some (many_calls, Inr (sort_Slice many_enriched published_less)) \<and>
   many_v \<in> set (sort_Slice many_enriched published_less) \<and>
   ScheduledStartTime many_v = 0 \<and>
   many_w\<lparr>ScheduledStartTime := 63850615200000000000\<rparr>
     \<in> set (sort_Slice many_enriched published_less)"
proof -
  have u: "LiveStatus many_v = ''upcoming''" "VideoID many_v = ''v''"
    by (simp_all add: many_v_def demo_video_def)
  have i: "VideoID many_v \<in> set many_ids" "VideoID many_v \<notin> set [''w'']"
    unfolding u by (simp_all add: many_ids_eq)
  have d: "\<forall>batch\<in>set [many_ids, [''w'']].
             VideoID many_v \<in> set batch \<longrightarrow>
             isl (Videos_List many_svc (strings_Join batch '',''))"
    using i(2) by (simp add: many_first_batch_fails del: strings_Join.simps)
  from failed_batch_leaves_record_unset [OF many_collect many_batches]
  obtain calls videos where
    f: "fetchLatestVideos demo_time many_svc demo_names [''UCa'', ''UCb''] demo_now
          = Some (calls, Inr videos)"
    and k: "\<forall>v\<in>set many_collected.
              LiveStatus v = ''upcoming'' \<and>
              answers_requested many_svc [many_ids, [''w'']] \<and>
              (\<forall>batch\<in>set [many_ids, [''w'']].
                 VideoID v \<in> set batch \<longrightarrow>
                 isl (Videos_List many_svc (strings_Join batch '','')))
              \<longrightarrow> v \<in> set videos \<and> LiveStatus v = ''upcoming'' \<and> ScheduledStartTime v = 0"
    by blast
  from f many_fetch have "videos = sort_Slice many_enriched published_less" by simp
  with bspec [OF k many_v_collected] u(1) many_answers d
  have r: "many_v \<in> set (sort_Slice many_enriched published_less) \<and>
           ScheduledStartTime many_v = 0"
    by blast
  have p: "many_w\<lparr>ScheduledStartTime := 63850615200000000000\<rparr>
             \<in> set (sort_Slice many_enriched published_less)"
    by (simp add: sort_Slice_set many_enriched_def)
  show ?thesis
    using many_collect many_batches many_v_collected u(1) many_answers i
      many_first_batch_fails many_second_batch many_fetch r p
    by blast
qed

text \<open>
  Claim C8, as far as it holds. When the published timestamps are pairwise distinct, a
  permutation of the channel IDs gives the same videos in the same order: the two results
  agree in every field except possibly \<open>ScheduledStartTime\<close>. They are equal when,
  moreover, the video IDs are pairwise distinct and both runs receive, for every video ID,
  the same detail records.
\<close>

theorem channel_order_irrelevant:
  assumes perm: "mset channelIDs' = mset channelIDs"
    and fetch: "fetchLatestVideos tm svc channelNames channelIDs now = Some (calls, Inr videos)"
    and fetch': "fetchLatestVideos tm svc channelNames channelIDs' now = Some (calls', res')"
    and times: "distinct (map Published videos)"
  shows "\<exists>videos'. res' = Inr videos' \<and>
           map (\<lambda>v. v\<lparr>ScheduledStartTime := 0\<rparr>) videos'
             = map (\<lambda>v. v\<lparr>ScheduledStartTime := 0\<rparr>) videos \<and>
           (distinct (map VideoID videos) \<and>
            (\<forall>v\<in>set videos.
               filter (\<lambda>item. video_Id item = VideoID v) (logged_details svc calls')
                 = filter (\<lambda>item. video_Id item = VideoID v) (logged_details svc calls))
            \<longrightarrow> videos' = videos)"
proof -
  let ?w = "weekAgo_of tm now"
  let ?strip = "\<lambda>v::Video. v\<lparr>ScheduledStartTime := 0\<rparr>"
  from fetch obtain collected where
    c: "snd (collect_channels tm svc channelNames ?w channelIDs [] []) = Inr collected"
    and m: "mset (map ?strip videos) = mset (map ?strip collected)"
    and s: "sorted_wrt (\<lambda>a b. Published b \<le> Published a) (map ?strip videos)"
    by (rule fetch_stripped)
  obtain calls0 where c0: "collect_channels tm svc channelNames ?w channelIDs [] [] = (calls0, Inr collected)"
    using c by (cases "collect_channels tm svc channelNames ?w channelIDs [] []") simp
  from collect_channels_Inr[OF c0] have
    ok: "\<forall>c\<in>set channelIDs. \<exists>vc. channel_videos tm svc channelNames ?w c = Inr vc"
    and cl: "collected = concat (map (channel_list tm svc channelNames ?w) channelIDs)"
    by simp_all
  have "set channelIDs' = set channelIDs" using perm by (rule mset_eq_setD)
  with ok have ok': "\<forall>c\<in>set channelIDs'. \<exists>vc. channel_videos tm svc channelNames ?w c = Inr vc"
    by simp
  let ?collected' = "concat (map (channel_list tm svc channelNames ?w) channelIDs')"
  have c': "snd (collect_channels tm svc channelNames ?w channelIDs' [] []) = Inr ?collected'"
    using collect_channels_all_ok[OF ok', of "[]" "[]"] by simp
  then obtain videos' where r': "res' = Inr videos'"
    using fetch' by (auto simp: fetch_eq split: prod.splits sum.splits)
  from fetch'[unfolded r'] obtain collected' where
    c'': "snd (collect_channels tm svc channelNames ?w channelIDs' [] []) = Inr collected'"
    and m': "mset (map ?strip videos') = mset (map ?strip collected')"
    and s': "sorted_wrt (\<lambda>a b. Published b \<le> Published a) (map ?strip videos')"
    by (rule fetch_stripped)
  have "collected' = ?collected'" using c' c'' by simp
  then have "mset collected' = mset collected"
    unfolding cl using mset_concat_map_cong[OF perm] by simp
  then have mm: "mset (map ?strip videos') = mset (map ?strip videos)"
    using m m' by simp
  have d: "distinct (map Published (map ?strip videos))"
    using times by (simp add: comp_def)
  have d': "distinct (map Published (map ?strip videos'))"
    using d mm by (metis mset_eq_imp_distinct_iff mset_map)
  have eq: "map ?strip videos' = map ?strip videos"
    using s' s mm d' by (rule sorted_desc_unique)
  have full: "videos' = videos"
    if di: "distinct (map VideoID videos)"
      and same: "\<forall>v\<in>set videos.
               filter (\<lambda>item. video_Id item = VideoID v) (logged_details svc calls')
                 = filter (\<lambda>item. video_Id item = VideoID v) (logged_details svc calls)"
  proof -
    have "map VideoID (map ?strip videos') = map VideoID (map ?strip videos)"
      using eq by simp
    then have ids: "map VideoID videos' = map VideoID videos" by (simp add: comp_def)
    have u: "length (filter (\<lambda>v. VideoID v = x) videos) \<le> 1" for x
      unfolding count_VideoID using di by (simp add: distinct_count_atmost_1)
    have u': "length (filter (\<lambda>v. VideoID v = x) videos') \<le> 1" for x
      unfolding count_VideoID ids using di by (simp add: distinct_count_atmost_1)
    have sch: "\<forall>r\<in>set videos. ScheduledStartTime r
                 = scheduled_by tm (logged_details svc calls) (VideoID r) 0"
      using fetch u by (intro fetch_scheduled) simp_all
    have sch': "\<forall>r\<in>set videos'. ScheduledStartTime r
                 = scheduled_by tm (logged_details svc calls') (VideoID r) 0"
      using fetch'[unfolded r'] u' by (intro fetch_scheduled) simp_all
    have len: "length videos' = length videos" using ids by (metis length_map)
    show ?thesis
    proof (rule nth_equalityI[OF len])
      fix i assume i: "i < length videos'"
      then have i2: "i < length videos" using len by simp
      have e1: "?strip (videos' ! i) = ?strip (videos ! i)"
        using eq i i2 by (metis nth_map)
      have id: "VideoID (videos' ! i) = VideoID (videos ! i)"
        using ids i i2 by (metis nth_map)
      have "ScheduledStartTime (videos' ! i)
              = scheduled_by tm (logged_details svc calls') (VideoID (videos ! i)) 0"
        using sch' i id by simp
      also have "\<dots> = scheduled_by tm
          (filter (\<lambda>item. video_Id item = VideoID (videos ! i)) (logged_details svc calls'))
          (VideoID (videos ! i)) 0"
        by (simp only: scheduled_by_filter)
      also have "\<dots> = scheduled_by tm
          (filter (\<lambda>item. video_Id item = VideoID (videos ! i)) (logged_details svc calls))
          (VideoID (videos ! i)) 0"
        using same i2 by simp
      also have "\<dots> = ScheduledStartTime (videos ! i)"
        using sch i2 by (simp only: scheduled_by_filter) simp
      finally have "ScheduledStartTime (videos' ! i) = ScheduledStartTime (videos ! i)" .
      with e1 show "videos' ! i = videos ! i"
        by (rule Video_eq_except_scheduled)
    qed
  qed
  show ?thesis using r' eq full by blast
qed

theorem channel_order_irrelevant_witness:
  "mset [''UCb'', ''UCa''] = mset [''UCa'', ''UCb''] \<and>
   fetchLatestVideos demo_time demo_svc demo_names [''UCa'', ''UCb''] demo_now
     = Some (demo_calls, Inr demo_result) \<and>
   fetchLatestVideos demo_time demo_svc demo_names [''UCb'', ''UCa''] demo_now
     = Some (demo_calls_swapped, Inr demo_result) \<and>
   distinct (map Published demo_result) \<and>
   distinct (map VideoID demo_result) \<and>
   filter (\<lambda>item. video_Id item = ''b1'') (logged_details demo_svc demo_calls_swapped)
     = filter (\<lambda>item. video_Id item = ''b1'') (logged_details demo_svc demo_calls)"
proof -
  have p: "mset [''UCb'', ''UCa''] = mset [''UCa'', ''UCb'']" by simp
  have d: "distinct (map Published demo_result)" "distinct (map VideoID demo_result)"
    by (simp_all add: demo_result_def demo_video_def)
  have s: "filter (\<lambda>item. video_Id item = ''b1'') (logged_details demo_svc demo_calls_swapped)
     = filter (\<lambda>item. video_Id item = ''b1'') (logged_details demo_svc demo_calls)"
    by (simp add: demo_logged demo_logged_swapped demo_detail_def)
  note t = channel_order_irrelevant [OF p demo_fetch demo_fetch_swapped d(1)]
  show ?thesis
    using t p demo_fetch demo_fetch_swapped d s by blast
qed

text \<open>
  Two pairs of runs in which only the order of the two channels differs and the results
  differ, the timestamps being pairwise distinct: in the first pair the detail lookup
  answers \<open>a1,b1\<close> and not \<open>b1,a1\<close>; in the second both channels list a video with the
  same ID, and the record that comes first gets the scheduled start.
\<close>

theorem channel_order_counterexample:
  "fetchLatestVideos demo_time cx8_svc demo_names [''UCa'', ''UCb''] demo_now
     = Some (demo_calls, Inr demo_result) \<and>
   fetchLatestVideos demo_time cx8_svc demo_names [''UCb'', ''UCa''] demo_now
     = Some (demo_calls_swapped, Inr demo_result_down) \<and>
   distinct (map Published demo_result) \<and>
   demo_result_down \<noteq> demo_result \<and>
   fetchLatestVideos demo_time cx8_twin_svc demo_names [''UCa'', ''UCb''] demo_now
     = Some (demo_search_calls @ [Videos_List_call ''v,v''], Inr cx8_twin_result) \<and>
   fetchLatestVideos demo_time cx8_twin_svc demo_names [''UCb'', ''UCa''] demo_now
     = Some (cx8_twin_calls_swapped, Inr cx8_twin_result_swapped) \<and>
   distinct (map Published cx8_twin_result) \<and>
   cx8_twin_result_swapped \<noteq> cx8_twin_result"
  by (simp add: run_defs demo_defs cx8_svc_def cx8_twin_svc_def demo_calls_swapped_def
      demo_result_down_def cx8_twin_result_def cx8_twin_result_swapped_def
      cx8_twin_calls_swapped_def)

end
